theory Spec2Isabelle
  imports Main "HOL-Library.Sublist"
begin

section \<open>Data model (app/models/job.py)\<close>

text \<open>
  Python values are modelled as follows: \<open>str\<close> is \<open>string\<close> (one list element per
  character), \<open>int\<close> is \<open>int\<close>, a \<open>datetime\<close> is a natural number (a reading of the
  clock), \<open>X | None\<close> is \<open>X option\<close>. The payload classes of app/models/serp.py and
  app/models/article.py are opaque to the orchestrator and to the store, which only
  move them around; each is a datatype around its body.
\<close>

type_synonym datetime = nat

datatype JobStatus = PENDING | RUNNING | COMPLETED | FAILED

text \<open>\<open>PipelineStep.COMPLETED\<close> is written \<open>STEP_COMPLETED\<close>, since \<open>COMPLETED\<close> is the
  job status of the same name.\<close>

datatype PipelineStep =
    CREATED
  | SERP_ANALYSIS
  | THEME_EXTRACTION
  | OUTLINE_GENERATION
  | ARTICLE_GENERATION
  | SEO_VALIDATION
  | STEP_COMPLETED

datatype SerpData = SerpData string
datatype PageSignals = PageSignals string
datatype ThemeAnalysis = ThemeAnalysis string
datatype ArticleOutline = ArticleOutline string
datatype GeneratedArticle = GeneratedArticle string

record JobInput =
  topic :: string
  word_count :: int
  language :: string

record JobArtifacts =
  serp_data :: "SerpData option"
  page_signals :: "PageSignals list"
  theme_analysis :: "ThemeAnalysis option"
  outline :: "ArticleOutline option"
  draft_article :: "string option"
  final_article :: "GeneratedArticle option"

record JobError =
  step :: PipelineStep
  message :: string
  details :: "string option"
  timestamp :: datetime

record Job =
  job_id :: string
  input :: JobInput
  status :: JobStatus
  current_step :: PipelineStep
  created_at :: datetime
  updated_at :: datetime
  completed_at :: "datetime option"
  artifacts :: JobArtifacts
  error :: "JobError option"
  retry_count :: int

text \<open>Exceptions. \<open>ProviderError\<close> is whatever a step's \<open>execute\<close> raises, \<open>OSError\<close>
  what the file system raises, \<open>CallbackError\<close> what a progress callback raises.\<close>

datatype exn =
    ValueError string
  | ValidationError "string list"
  | ProviderError string
  | OSError string
  | CallbackError string

fun exn_str :: "exn \<Rightarrow> string" where
  "exn_str (ValueError m) = m"
| "exn_str (ValidationError fs) = concat fs"
| "exn_str (ProviderError m) = m"
| "exn_str (OSError m) = m"
| "exn_str (CallbackError m) = m"

fun exn_repr :: "exn \<Rightarrow> string" where
  "exn_repr (ValueError m) = ''ValueError('' @ m @ '')''"
| "exn_repr (ValidationError fs) = ''ValidationError('' @ concat fs @ '')''"
| "exn_repr (ProviderError m) = ''ProviderError('' @ m @ '')''"
| "exn_repr (OSError m) = ''OSError('' @ m @ '')''"
| "exn_repr (CallbackError m) = ''CallbackError('' @ m @ '')''"

subsection \<open>JobInput: the field constraints\<close>




section \<open>The world outside the program\<close>

text \<open>
  Modelled from the spec: the JSON text of a job. \<open>model_dump_json\<close>, \<open>json.load\<close> and
  \<open>Job.model_validate\<close> are pydantic's and Python's, not code of the repository. By the
  spec a record is kept "in a self-describing serialized form" and "saving then loading
  a job yields a record equal to the one saved". So a file holds nothing yet (\<open>Empty\<close>,
  as \<open>mkstemp\<close> leaves it), the whole text that \<open>model_dump_json\<close> produces for a job
  (\<open>Serialized\<close>), or a proper prefix of that text (\<open>Partial\<close>), which is not JSON.
\<close>

datatype file_content = Empty | Partial Job | Serialized Job

text \<open>
  Modelled from the spec: \<open>json.load\<close> followed by \<open>Job.model_validate\<close>. It reads the job
  back, every field as it was written, from a whole text, and raises (\<open>None\<close>) on an
  empty or cut-off one.
\<close>

fun parse_job :: "file_content \<Rightarrow> Job option" where
  "parse_job (Serialized j) = Some j"
| "parse_job (Partial j) = None"
| "parse_job Empty = None"

text \<open>
  The jobs directory is a list of named files, in the order the operating system lists
  them. \<open>tick\<close> counts the interactions with the outside (clock readings, file
  operations, provider calls, identifier draws); \<open>calls\<close> logs the pipeline steps whose
  \<open>execute\<close> was invoked.
\<close>

record world =
  files :: "(string \<times> file_content) list"
  tick :: nat
  calls :: "PipelineStep list"

text \<open>Where the failure strikes inside one \<open>save\<close>.\<close>

datatype io_fault = NoFault | MkstempFails | DumpFails | WriteFails | RenameFails

text \<open>
  Everything the program does not decide, as functions of the tick at which it is
  asked: the clock, the name \<open>mkstemp\<close> draws, the failure of a save, \<open>uuid4\<close>, and the
  five step implementations with the arguments the orchestrator passes them.
\<close>

record env =
  clock :: "nat \<Rightarrow> datetime"
  tmp_name :: "nat \<Rightarrow> string"
  fault :: "nat \<Rightarrow> io_fault"
  uuid4 :: "nat \<Rightarrow> string"
  serp_execute :: "nat \<Rightarrow> string \<Rightarrow> exn + SerpData"
  theme_execute :: "nat \<Rightarrow> string \<Rightarrow> SerpData \<Rightarrow> exn + ThemeAnalysis"
  outline_execute :: "nat \<Rightarrow> string \<Rightarrow> ThemeAnalysis \<Rightarrow> int \<Rightarrow> string \<Rightarrow> exn + ArticleOutline"
  article_execute ::
    "nat \<Rightarrow> string \<Rightarrow> ArticleOutline \<Rightarrow> ThemeAnalysis option \<Rightarrow> int \<Rightarrow> string \<Rightarrow> exn + string"
  seo_execute :: "nat \<Rightarrow> string \<Rightarrow> ArticleOutline \<Rightarrow> string \<Rightarrow> int \<Rightarrow> exn + GeneratedArticle"

definition utcnow :: "env \<Rightarrow> world \<Rightarrow> datetime \<times> world" where
  "utcnow e w = (clock e (tick w), w\<lparr>tick := Suc (tick w)\<rparr>)"

subsection \<open>Job methods\<close>

definition mark_step :: "env \<Rightarrow> world \<Rightarrow> Job \<Rightarrow> PipelineStep \<Rightarrow> Job \<times> world" where
  "mark_step e w job s =
     (let (t1, w1) = utcnow e w;
          job1 = job\<lparr>current_step := s, updated_at := t1\<rparr>
      in if s = STEP_COMPLETED
         then (let (t2, w2) = utcnow e w1
               in (job1\<lparr>status := COMPLETED, completed_at := Some t2\<rparr>, w2))
         else (job1, w1))"

definition mark_failed ::
  "env \<Rightarrow> world \<Rightarrow> Job \<Rightarrow> PipelineStep \<Rightarrow> string \<Rightarrow> string option \<Rightarrow> Job \<times> world" where
  "mark_failed e w job s msg det =
     (let (t1, w1) = utcnow e w;
          err = \<lparr>step = s, message = msg, details = det, timestamp = t1\<rparr>;
          (t2, w2) = utcnow e w1
      in (job\<lparr>status := FAILED, error := Some err, updated_at := t2\<rparr>, w2))"

definition mark_running :: "env \<Rightarrow> world \<Rightarrow> Job \<Rightarrow> Job \<times> world" where
  "mark_running e w job =
     (let (t1, w1) = utcnow e w
      in (job\<lparr>status := RUNNING, updated_at := t1\<rparr>, w1))"

section \<open>Job store (app/persistence/job_store.py)\<close>

subsection \<open>The directory\<close>

definition fs_exists :: "(string \<times> file_content) list \<Rightarrow> string \<Rightarrow> bool" where
  "fs_exists fs n = (n \<in> set (map fst fs))"

definition fs_remove :: "(string \<times> file_content) list \<Rightarrow> string \<Rightarrow> (string \<times> file_content) list" where
  "fs_remove fs n = filter (\<lambda>p. fst p \<noteq> n) fs"

text \<open>Writing a file replaces its content where it stands, or adds the file.\<close>

definition fs_write ::
  "(string \<times> file_content) list \<Rightarrow> string \<Rightarrow> file_content \<Rightarrow> (string \<times> file_content) list" where
  "fs_write fs n c =
     (if fs_exists fs n then map (\<lambda>p. if fst p = n then (n, c) else p) fs else fs @ [(n, c)])"

text \<open>\<open>os.rename\<close> on POSIX: the source name disappears and the destination holds the
  source's content, replacing what it held.\<close>

definition fs_rename ::
  "(string \<times> file_content) list \<Rightarrow> string \<Rightarrow> string \<Rightarrow> (string \<times> file_content) list" where
  "fs_rename fs src dst =
     (case map_of fs src of None \<Rightarrow> fs | Some c \<Rightarrow> fs_write (fs_remove fs src) dst c)"

definition job_path :: "string \<Rightarrow> string" where
  "job_path jid = jid @ ''.json''"

definition temp_path_of :: "env \<Rightarrow> nat \<Rightarrow> string \<Rightarrow> string" where
  "temp_path_of e k jid = ''.'' @ jid @ ''_'' @ tmp_name e k @ ''.tmp''"

subsection \<open>save\<close>

text \<open>
  \<open>save_trace\<close> is \<open>JobStore.save\<close> with every state the directory passes through:
  after \<open>mkstemp\<close>, after the write, after the rename or the clean-up. It returns the
  exception raised (if any), the job as mutated (\<open>updated_at\<close> is stamped first) and
  the states. \<open>mkstemp\<close> is outside the \<open>try\<close>: when it fails nothing was created.
  \<open>mkstemp\<close> never returns the name of an existing file; here it fails when the name
  drawn exists.
\<close>

definition cleanup :: "string \<Rightarrow> world \<Rightarrow> world" where
  "cleanup temp_path w =
     (if fs_exists (files w) temp_path then w\<lparr>files := fs_remove (files w) temp_path\<rparr> else w)"

definition save_trace :: "env \<Rightarrow> world \<Rightarrow> Job \<Rightarrow> exn option \<times> Job \<times> world list" where
  "save_trace e w job =
     (let (t, w1) = utcnow e w;
          job1 = job\<lparr>updated_at := t\<rparr>;
          final = job_path (job_id job1);
          k = tick w1;
          w2 = w1\<lparr>tick := Suc k\<rparr>;
          temp_path = temp_path_of e k (job_id job1)
      in if fault e k = MkstempFails \<or> fs_exists (files w2) temp_path
         then (Some (OSError ''mkstemp''), job1, [w2])
         else
           (let w3 = w2\<lparr>files := fs_write (files w2) temp_path Empty\<rparr>
            in case fault e k of
                 DumpFails \<Rightarrow>
                   (Some (ValueError ''model_dump_json''), job1, [w3, cleanup temp_path w3])
               | WriteFails \<Rightarrow>
                   (let w4 = w3\<lparr>files := fs_write (files w3) temp_path (Partial job1)\<rparr>
                    in (Some (OSError ''write''), job1, [w3, w4, cleanup temp_path w4]))
               | RenameFails \<Rightarrow>
                   (let w4 = w3\<lparr>files := fs_write (files w3) temp_path (Serialized job1)\<rparr>
                    in (Some (OSError ''rename''), job1, [w3, w4, cleanup temp_path w4]))
               | _ \<Rightarrow>
                   (let w4 = w3\<lparr>files := fs_write (files w3) temp_path (Serialized job1)\<rparr>;
                        w5 = w4\<lparr>files := fs_rename (files w4) temp_path final\<rparr>
                    in (None, job1, [w3, w4, w5]))))"

definition save :: "env \<Rightarrow> world \<Rightarrow> Job \<Rightarrow> exn option \<times> Job \<times> world" where
  "save e w job = (case save_trace e w job of (r, job1, ws) \<Rightarrow> (r, job1, last ws))"

subsection \<open>create, get, list_jobs, get_resumable_jobs\<close>

definition empty_artifacts :: JobArtifacts where
  "empty_artifacts =
     \<lparr>serp_data = None, page_signals = [], theme_analysis = None, outline = None,
      draft_article = None, final_article = None\<rparr>"

definition create :: "env \<Rightarrow> world \<Rightarrow> JobInput \<Rightarrow> exn option \<times> Job \<times> world" where
  "create e w inp =
     (let k = tick w;
          jid = take 8 (uuid4 e k);
          w1 = w\<lparr>tick := Suc k\<rparr>;
          (t1, w2) = utcnow e w1;
          (t2, w3) = utcnow e w2;
          job = \<lparr>job_id = jid, input = inp, status = PENDING, current_step = CREATED,
                 created_at = t1, updated_at = t2, completed_at = None,
                 artifacts = empty_artifacts, error = None, retry_count = 0\<rparr>
      in save e w3 job)"

text \<open>\<open>get\<close>: no file, or a file that does not parse, is \<open>None\<close>.\<close>

definition get :: "world \<Rightarrow> string \<Rightarrow> Job option" where
  "get w jid =
     (case map_of (files w) (job_path jid) of None \<Rightarrow> None | Some c \<Rightarrow> parse_job c)"

text \<open>Python's \<open>list.sort(key=..., reverse=True)\<close>: descending and stable.\<close>

fun insert_desc :: "('a \<Rightarrow> nat) \<Rightarrow> 'a \<Rightarrow> 'a list \<Rightarrow> 'a list" where
  "insert_desc f x [] = [x]"
| "insert_desc f x (y # ys) = (if f y \<le> f x then x # y # ys else y # insert_desc f x ys)"

definition sort_desc :: "('a \<Rightarrow> nat) \<Rightarrow> 'a list \<Rightarrow> 'a list" where
  "sort_desc f xs = foldr (insert_desc f) xs []"

text \<open>Python's \<open>xs[:n]\<close>, also for a negative \<open>n\<close>.\<close>

definition slice_to :: "int \<Rightarrow> 'a list \<Rightarrow> 'a list" where
  "slice_to n xs = (if 0 \<le> n then take (nat n) xs else take (length xs - nat (- n)) xs)"

definition list_jobs :: "world \<Rightarrow> JobStatus option \<Rightarrow> int \<Rightarrow> Job list" where
  "list_jobs w st limit =
     (let paths = filter (\<lambda>p. suffix ''.json'' (fst p)) (files w);
          jobs = concat (map (\<lambda>p.
                   if prefix ''.'' (fst p) then []
                   else (case parse_job (snd p) of
                           None \<Rightarrow> []
                         | Some job \<Rightarrow> if st = None \<or> st = Some (status job) then [job] else []))
                 paths)
      in slice_to limit (sort_desc created_at jobs))"

text \<open>\<open>list_jobs(status=status)\<close> is called with the default \<open>limit=100\<close>.\<close>

definition get_resumable_jobs :: "world \<Rightarrow> Job list" where
  "get_resumable_jobs w = concat (map (\<lambda>st. list_jobs w (Some st) 100) [RUNNING, FAILED])"

section \<open>Pipeline orchestrator (app/pipeline/orchestrator.py)\<close>

definition STEP_ORDER :: "PipelineStep list" where
  "STEP_ORDER =
     [CREATED, SERP_ANALYSIS, THEME_EXTRACTION, OUTLINE_GENERATION, ARTICLE_GENERATION,
      SEO_VALIDATION, STEP_COMPLETED]"

text \<open>\<open>list.index\<close>; \<open>None\<close> stands for its \<open>ValueError\<close>.\<close>

fun index_of :: "'a list \<Rightarrow> 'a \<Rightarrow> nat option" where
  "index_of [] x = None"
| "index_of (y # ys) x = (if y = x then Some 0 else map_option Suc (index_of ys x))"

text \<open>\<open>not s\<close> for \<open>s: str | None\<close>: \<open>None\<close> and the empty string are falsy. A pydantic
  model is always truthy, so for the other artifacts \<open>not a\<close> is \<open>a = None\<close>.\<close>

definition falsy_str :: "string option \<Rightarrow> bool" where
  "falsy_str s = (s = None \<or> s = Some [])"

text \<open>
  \<open>_execute_step\<close>. A step's \<open>execute\<close> is one interaction with the outside: it takes a
  tick and is logged in \<open>calls\<close>. The artifact is assigned only after \<open>execute\<close>
  returned. A missing upstream artifact raises before anything is called.
\<close>

definition invoke :: "world \<Rightarrow> PipelineStep \<Rightarrow> world" where
  "invoke w s = w\<lparr>tick := Suc (tick w), calls := calls w @ [s]\<rparr>"

definition execute_step :: "env \<Rightarrow> world \<Rightarrow> Job \<Rightarrow> PipelineStep \<Rightarrow> exn option \<times> Job \<times> world" where
  "execute_step e w job s =
     (let a = artifacts job; i = input job; k = tick w
      in
      if s = SERP_ANALYSIS then
        (case serp_execute e k (topic i) of
           Inl x \<Rightarrow> (Some x, job, invoke w s)
         | Inr v \<Rightarrow> (None, job\<lparr>artifacts := a\<lparr>serp_data := Some v\<rparr>\<rparr>, invoke w s))
      else if s = THEME_EXTRACTION then
        (case serp_data a of
           None \<Rightarrow> (Some (ValueError ''SERP data required for theme extraction''), job, w)
         | Some sd \<Rightarrow>
             (case theme_execute e k (topic i) sd of
                Inl x \<Rightarrow> (Some x, job, invoke w s)
              | Inr v \<Rightarrow> (None, job\<lparr>artifacts := a\<lparr>theme_analysis := Some v\<rparr>\<rparr>, invoke w s)))
      else if s = OUTLINE_GENERATION then
        (case theme_analysis a of
           None \<Rightarrow> (Some (ValueError ''Theme analysis required for outline generation''), job, w)
         | Some ta \<Rightarrow>
             (case outline_execute e k (topic i) ta (word_count i) (language i) of
                Inl x \<Rightarrow> (Some x, job, invoke w s)
              | Inr v \<Rightarrow> (None, job\<lparr>artifacts := a\<lparr>outline := Some v\<rparr>\<rparr>, invoke w s)))
      else if s = ARTICLE_GENERATION then
        (case outline a of
           None \<Rightarrow> (Some (ValueError ''Outline required for article generation''), job, w)
         | Some ol \<Rightarrow>
             (case article_execute e k (topic i) ol (theme_analysis a) (word_count i) (language i) of
                Inl x \<Rightarrow> (Some x, job, invoke w s)
              | Inr v \<Rightarrow> (None, job\<lparr>artifacts := a\<lparr>draft_article := Some v\<rparr>\<rparr>, invoke w s)))
      else if s = SEO_VALIDATION then
        (if falsy_str (draft_article a) \<or> outline a = None
         then (Some (ValueError ''Draft article required for SEO validation''), job, w)
         else
           (case seo_execute e k (the (draft_article a)) (the (outline a)) (topic i) (word_count i) of
              Inl x \<Rightarrow> (Some x, job, invoke w s)
            | Inr v \<Rightarrow> (None, job\<lparr>artifacts := a\<lparr>final_article := Some v\<rparr>\<rparr>, invoke w s)))
      else if s = STEP_COMPLETED then (None, job\<lparr>status := COMPLETED\<rparr>, w)
      else (None, job, w))"

definition checkpoint :: "env \<Rightarrow> world \<Rightarrow> Job \<Rightarrow> PipelineStep \<Rightarrow> exn option \<times> Job \<times> world" where
  "checkpoint e w job s = (let (job1, w1) = mark_step e w job s in save e w1 job1)"

text \<open>The progress callback returns, or raises; \<open>None\<close> is no callback.\<close>

definition notify :: "(Job \<Rightarrow> exn option) option \<Rightarrow> Job \<Rightarrow> exn option" where
  "notify on_progress job = (case on_progress of None \<Rightarrow> None | Some f \<Rightarrow> f job)"

text \<open>
  The \<open>for\<close> loop of \<open>run\<close> over the indices \<open>range(start_index, len(STEP_ORDER) - 1)\<close>;
  every index \<open>i\<close> of that range has \<open>i + 1 < len(STEP_ORDER)\<close>.
\<close>

fun run_loop ::
  "env \<Rightarrow> (Job \<Rightarrow> exn option) option \<Rightarrow> nat list \<Rightarrow> world \<Rightarrow> Job \<Rightarrow> exn option \<times> Job \<times> world" where
  "run_loop e on_progress [] w job = (None, job, w)"
| "run_loop e on_progress (i # rest) w job =
     (let next_step = STEP_ORDER ! (i + 1)
      in case execute_step e w job next_step of
           (Some x, job1, w1) \<Rightarrow> (Some x, job1, w1)
         | (None, job1, w1) \<Rightarrow>
             (case checkpoint e w1 job1 next_step of
                (Some x, job2, w2) \<Rightarrow> (Some x, job2, w2)
              | (None, job2, w2) \<Rightarrow>
                  (case notify on_progress job2 of
                     Some x \<Rightarrow> (Some x, job2, w2)
                   | None \<Rightarrow>
                       if next_step = STEP_COMPLETED then (None, job2, w2)
                       else run_loop e on_progress rest w2 job2)))"

text \<open>The statements of \<open>run\<close> before the \<open>try\<close>: an exception there reaches the caller
  directly.\<close>

definition run_start ::
  "env \<Rightarrow> (Job \<Rightarrow> exn option) option \<Rightarrow> world \<Rightarrow> Job \<Rightarrow> exn option \<times> Job \<times> world" where
  "run_start e on_progress w job =
     (let (job1, w1) = mark_running e w job
      in case save e w1 job1 of
           (Some x, job2, w2) \<Rightarrow> (Some x, job2, w2)
         | (None, job2, w2) \<Rightarrow> (notify on_progress job2, job2, w2))"

text \<open>The body of the \<open>try\<close>.\<close>

definition run_try ::
  "env \<Rightarrow> (Job \<Rightarrow> exn option) option \<Rightarrow> world \<Rightarrow> Job \<Rightarrow> exn option \<times> Job \<times> world" where
  "run_try e on_progress w job =
     (case index_of STEP_ORDER (current_step job) of
        None \<Rightarrow> (Some (ValueError ''not in list''), job, w)
      | Some start_index \<Rightarrow>
          run_loop e on_progress [start_index..<length STEP_ORDER - 1] w job)"

text \<open>The \<open>except Exception as e\<close> handler; an exception raised inside it replaces \<open>e\<close>.\<close>

definition run_except ::
  "env \<Rightarrow> (Job \<Rightarrow> exn option) option \<Rightarrow> world \<Rightarrow> Job \<Rightarrow> exn \<Rightarrow> exn option \<times> Job \<times> world" where
  "run_except e on_progress w job x =
     (let (job1, w1) = mark_failed e w job (current_step job) (exn_str x) (Some (exn_repr x))
      in case save e w1 job1 of
           (Some y, job2, w2) \<Rightarrow> (Some y, job2, w2)
         | (None, job2, w2) \<Rightarrow>
             (case notify on_progress job2 of
                Some y \<Rightarrow> (Some y, job2, w2)
              | None \<Rightarrow> (Some x, job2, w2)))"

text \<open>\<open>run\<close> returns the exception that reaches the caller (\<open>None\<close> when it returns the
  job), the job object as it is afterwards, and the world.\<close>

definition run ::
  "env \<Rightarrow> (Job \<Rightarrow> exn option) option \<Rightarrow> world \<Rightarrow> Job \<Rightarrow> exn option \<times> Job \<times> world" where
  "run e on_progress w job =
     (case run_start e on_progress w job of
        (Some x, job1, w1) \<Rightarrow> (Some x, job1, w1)
      | (None, job1, w1) \<Rightarrow>
          (case run_try e on_progress w1 job1 of
             (None, job2, w2) \<Rightarrow> (None, job2, w2)
           | (Some x, job2, w2) \<Rightarrow> run_except e on_progress w2 job2 x))"

fun status_value :: "JobStatus \<Rightarrow> string" where
  "status_value PENDING = ''pending''"
| "status_value RUNNING = ''running''"
| "status_value COMPLETED = ''completed''"
| "status_value FAILED = ''failed''"

text \<open>\<open>resume\<close> raises \<open>ValueError\<close> both for an unknown job and for one that cannot be
  resumed; the two are told apart by the message. It calls \<open>run\<close> without a callback.\<close>

definition NotFound :: "string \<Rightarrow> exn" where
  "NotFound jid = ValueError (''Job '' @ jid @ '' not found'')"

definition InvalidState :: "string \<Rightarrow> JobStatus \<Rightarrow> exn" where
  "InvalidState jid st =
     ValueError (''Job '' @ jid @ '' cannot be resumed (status: '' @ status_value st @ '')'')"

definition resume :: "env \<Rightarrow> world \<Rightarrow> string \<Rightarrow> exn option \<times> Job option \<times> world" where
  "resume e w jid =
     (case get w jid of
        None \<Rightarrow> (Some (NotFound jid), None, w)
      | Some job \<Rightarrow>
          if status job = COMPLETED then (None, Some job, w)
          else if status job \<notin> set [FAILED, RUNNING]
          then (Some (InvalidState jid (status job)), Some job, w)
          else
            (let job1 = job\<lparr>error := None, retry_count := retry_count job + 1\<rparr>
             in case run e None w job1 of (r, job2, w2) \<Rightarrow> (r, Some job2, w2)))"

section \<open>Properties stated about the program\<close>

text \<open>The position of a step in \<open>STEP_ORDER\<close>.\<close>

fun step_index :: "PipelineStep \<Rightarrow> nat" where
  "step_index CREATED = 0"
| "step_index SERP_ANALYSIS = 1"
| "step_index THEME_EXTRACTION = 2"
| "step_index OUTLINE_GENERATION = 3"
| "step_index ARTICLE_GENERATION = 4"
| "step_index SEO_VALIDATION = 5"
| "step_index STEP_COMPLETED = 6"

text \<open>
  The artifact of a step is the field of \<open>JobArtifacts\<close> that \<open>_execute_step\<close> assigns for
  that step; it is present when the field is not \<open>None\<close>. \<open>created\<close> and \<open>completed\<close>
  assign no field.
\<close>

fun has_artifact :: "PipelineStep \<Rightarrow> JobArtifacts \<Rightarrow> bool" where
  "has_artifact SERP_ANALYSIS a = (serp_data a \<noteq> None)"
| "has_artifact THEME_EXTRACTION a = (theme_analysis a \<noteq> None)"
| "has_artifact OUTLINE_GENERATION a = (outline a \<noteq> None)"
| "has_artifact ARTICLE_GENERATION a = (draft_article a \<noteq> None)"
| "has_artifact SEO_VALIDATION a = (final_article a \<noteq> None)"
| "has_artifact CREATED a = False"
| "has_artifact STEP_COMPLETED a = False"

definition artifact_steps :: "PipelineStep list" where
  "artifact_steps =
     [SERP_ANALYSIS, THEME_EXTRACTION, OUTLINE_GENERATION, ARTICLE_GENERATION, SEO_VALIDATION]"

text \<open>Step and artifacts agree: the artifact of each of the five producing steps is
  present exactly when \<open>current_step\<close> has reached that step.\<close>

definition step_artifacts_agree :: "Job \<Rightarrow> bool" where
  "step_artifacts_agree j =
     list_all (\<lambda>s. has_artifact s (artifacts j) = (step_index s \<le> step_index (current_step j)))
       artifact_steps"

text \<open>The job records on disk: every file that parses.\<close>

definition persisted :: "world \<Rightarrow> Job list" where
  "persisted w =
     concat (map (\<lambda>p. case parse_job (snd p) of None \<Rightarrow> [] | Some j \<Rightarrow> [j]) (files w))"

definition store_ok :: "world \<Rightarrow> bool" where
  "store_ok w = (\<forall>j \<in> set (persisted w). step_artifacts_agree j)"

text \<open>
  The checkpoint chain. From an empty jobs directory, jobs are created by the store,
  loaded with \<open>get\<close>, and driven by \<open>run\<close> (with any callback) and \<open>resume\<close>, in any
  order and with any outcome of the clock, the providers and the file system.
  \<open>reachable e w js\<close>: the world \<open>w\<close> has been reached and \<open>js\<close> are the job objects the
  callers hold.
\<close>

inductive reachable :: "env \<Rightarrow> world \<Rightarrow> Job list \<Rightarrow> bool" for e :: env where
  start: "reachable e \<lparr>files = [], tick = n, calls = []\<rparr> []"
| created: "reachable e w js \<Longrightarrow> create e w inp = (r, j, w') \<Longrightarrow> reachable e w' (j # js)"
| loaded: "reachable e w js \<Longrightarrow> get w jid = Some j \<Longrightarrow> reachable e w (j # js)"
| ran: "reachable e w js \<Longrightarrow> j \<in> set js \<Longrightarrow> run e cb w j = (r, j', w')
          \<Longrightarrow> reachable e w' (j' # js)"
| resumed: "reachable e w js \<Longrightarrow> resume e w jid = (r, Some j', w') \<Longrightarrow> reachable e w' (j' # js)"

text \<open>The highest step of \<open>STEP_ORDER\<close> whose artifact is present, if there is one.\<close>

definition highest_artifact_step :: "JobArtifacts \<Rightarrow> PipelineStep option" where
  "highest_artifact_step a =
     (case filter (\<lambda>s. has_artifact s a) (rev STEP_ORDER) of [] \<Rightarrow> None | s # _ \<Rightarrow> Some s)"

definition highest_step :: "Job \<Rightarrow> PipelineStep option" where
  "highest_step j = highest_artifact_step (artifacts j)"

subsection \<open>Concrete scenarios\<close>

text \<open>
  An environment in which nothing fails, and variants in which one provider or the file
  system fails; a job created in an empty directory with topic "seo", and the worlds
  and jobs after running it.
\<close>

definition demo_env :: env where
  "demo_env =
     \<lparr>clock = (\<lambda>k. k), tmp_name = (\<lambda>k. ''x''), fault = (\<lambda>k. NoFault),
      uuid4 = (\<lambda>k. ''0a1b2c3d-0000''),
      serp_execute = (\<lambda>k t. Inr (SerpData t)),
      theme_execute = (\<lambda>k t sd. Inr (ThemeAnalysis t)),
      outline_execute = (\<lambda>k t ta n l. Inr (ArticleOutline t)),
      article_execute = (\<lambda>k t ol ta n l. Inr ''draft''),
      seo_execute = (\<lambda>k d ol t n. Inr (GeneratedArticle d))\<rparr>"

definition demo_env_theme_fails :: env where
  "demo_env_theme_fails =
     demo_env\<lparr>theme_execute := (\<lambda>k t sd. Inl (ProviderError ''rate limit''))\<rparr>"

definition demo_world :: world where
  "demo_world = \<lparr>files = [], tick = 0, calls = []\<rparr>"

definition demo_input :: JobInput where
  "demo_input = \<lparr>topic = ''seo'', word_count = 1500, language = ''en''\<rparr>"

definition demo_created :: "env \<Rightarrow> exn option \<times> Job \<times> world" where
  "demo_created e = create e demo_world demo_input"

definition demo_ran :: "env \<Rightarrow> exn option \<times> Job \<times> world" where
  "demo_ran e = run e None (snd (snd (demo_created e))) (fst (snd (demo_created e)))"

definition demo_env_write_fails :: env where
  "demo_env_write_fails = demo_env\<lparr>fault := (\<lambda>k. WriteFails)\<rparr>"

definition demo_new_world :: world where
  "demo_new_world = snd (snd (demo_created demo_env))"

definition demo_new_job :: Job where
  "demo_new_job = fst (snd (demo_created demo_env))"

definition demo_done_world :: world where
  "demo_done_world = snd (snd (demo_ran demo_env))"

definition demo_done_job :: Job where
  "demo_done_job = fst (snd (demo_ran demo_env))"

definition demo_failed_world :: world where
  "demo_failed_world = snd (snd (demo_ran demo_env_theme_fails))"

definition demo_failed_job :: Job where
  "demo_failed_job = fst (snd (demo_ran demo_env_theme_fails))"

definition demo_env_serp_fails :: env where
  "demo_env_serp_fails = demo_env\<lparr>serp_execute := (\<lambda>k t. Inl (ProviderError ''timeout''))\<rparr>"

text \<open>The run under \<open>demo_env_theme_fails\<close> in its stages: the statements before the
  \<open>try\<close>, the first iteration of the loop, and the step that raises.\<close>

definition demo_start :: "exn option \<times> Job \<times> world" where
  "demo_start = run_start demo_env_theme_fails None demo_new_world demo_new_job"

definition demo_prefix :: "exn option \<times> Job \<times> world" where
  "demo_prefix =
     run_loop demo_env_theme_fails None [0..<1] (snd (snd demo_start)) (fst (snd demo_start))"

definition demo_raise :: "exn option \<times> Job \<times> world" where
  "demo_raise =
     execute_step demo_env_theme_fails (snd (snd demo_prefix)) (fst (snd demo_prefix))
       THEME_EXTRACTION"

text \<open>The jobs \<open>list_jobs\<close> reads: the files matching \<open>*.json\<close> whose name does not start
  with a dot and whose content parses.\<close>

definition stored_jobs :: "world \<Rightarrow> Job list" where
  "stored_jobs w =
     concat (map (\<lambda>p. if prefix ''.'' (fst p) then []
                        else (case parse_job (snd p) of None \<Rightarrow> [] | Some job \<Rightarrow> [job]))
               (filter (\<lambda>p. suffix ''.json'' (fst p)) (files w)))"

text \<open>A jobs directory holding 101 running jobs, created at times 0 to 100.\<close>

definition crowded_job :: "nat \<Rightarrow> Job" where
  "crowded_job n =
     \<lparr>job_id = replicate (Suc n) CHR ''a'', input = demo_input, status = RUNNING,
      current_step = CREATED, created_at = n, updated_at = n, completed_at = None,
      artifacts = empty_artifacts, error = None, retry_count = 0\<rparr>"

definition crowded_files :: "nat \<Rightarrow> (string \<times> file_content) list" where
  "crowded_files n =
     map (\<lambda>k. (job_path (job_id (crowded_job k)), Serialized (crowded_job k))) [0..<n]"

definition crowded_world :: world where
  "crowded_world = \<lparr>files = crowded_files 101, tick = 0, calls = []\<rparr>"

section \<open>Auxiliary lemmas\<close>

lemma index_of_STEP_ORDER: "index_of STEP_ORDER s = Some (step_index s)"
  by (cases s) (simp_all add: STEP_ORDER_def)

lemma STEP_ORDER_nth: "STEP_ORDER ! step_index s = s"
  by (cases s) (simp_all add: STEP_ORDER_def)

lemma step_index_le: "step_index s \<le> 6"
  by (cases s) simp_all

lemma step_index_inj: "step_index s = step_index t \<Longrightarrow> s = t"
  by (cases s; cases t) simp_all

lemma mark_running_eq:
  "mark_running e w job =
     (job\<lparr>status := RUNNING, updated_at := clock e (tick w)\<rparr>, w\<lparr>tick := Suc (tick w)\<rparr>)"
  by (simp add: mark_running_def utcnow_def)

lemma mark_failed_eq:
  "mark_failed e w job s msg det =
     (job\<lparr>status := FAILED,
          error := Some \<lparr>step = s, message = msg, details = det, timestamp = clock e (tick w)\<rparr>,
          updated_at := clock e (Suc (tick w))\<rparr>,
      w\<lparr>tick := Suc (Suc (tick w))\<rparr>)"
  by (simp add: mark_failed_def utcnow_def)

lemma mark_step_eq:
  "mark_step e w job s =
     (if s = STEP_COMPLETED
      then (job\<lparr>current_step := s, updated_at := clock e (tick w), status := COMPLETED,
                completed_at := Some (clock e (Suc (tick w)))\<rparr>,
            w\<lparr>tick := Suc (Suc (tick w))\<rparr>)
      else (job\<lparr>current_step := s, updated_at := clock e (tick w)\<rparr>, w\<lparr>tick := Suc (tick w)\<rparr>))"
  by (simp add: mark_step_def utcnow_def)

lemma map_of_fs_remove: "map_of (fs_remove fs n) m = (if m = n then None else map_of fs m)"
  by (induction fs) (auto simp: fs_remove_def)

lemma map_of_replace:
  "map_of (map (\<lambda>p. if fst p = n then (n, c) else p) fs) m
     = (if m = n \<and> map_of fs n \<noteq> None then Some c else map_of fs m)"
  by (induction fs) auto

lemma names_replace: "map fst (map (\<lambda>p. if fst p = n then (n, c) else p) fs) = map fst fs"
  by (induction fs) auto

lemma replace_fresh: "n \<notin> set (map fst fs) \<Longrightarrow> map (\<lambda>p. if fst p = n then (n, c) else p) fs = fs"
  by (induction fs) auto

lemma filter_fresh: "n \<notin> set (map fst fs) \<Longrightarrow> filter (\<lambda>p. fst p \<noteq> n) fs = fs"
  by (induction fs) auto

lemma map_of_fs_write: "map_of (fs_write fs n c) m = (if m = n then Some c else map_of fs m)"
proof (cases "fs_exists fs n")
  case True
  then have "map_of fs n \<noteq> None"
    by (simp add: fs_exists_def map_of_eq_None_iff)
  with True show ?thesis
    by (simp add: fs_write_def map_of_replace)
next
  case False
  then have "map_of fs n = None"
    by (simp add: fs_exists_def map_of_eq_None_iff)
  with False show ?thesis
    by (auto simp: fs_write_def map_add_def split: option.splits)
qed

lemma fs_exists_write: "fs_exists (fs_write fs n c) m = (m = n \<or> fs_exists fs m)"
proof (cases "fs_exists fs n")
  case True
  then show ?thesis
    unfolding fs_write_def fs_exists_def by (auto simp only: names_replace if_True)
next
  case False
  then show ?thesis
    by (auto simp: fs_write_def fs_exists_def)
qed

lemma fs_remove_fresh: "\<not> fs_exists fs n \<Longrightarrow> fs_remove (fs_write fs n c) n = fs"
  by (simp add: fs_write_def fs_exists_def fs_remove_def filter_fresh)

lemma fs_write_twice: "\<not> fs_exists fs n \<Longrightarrow> fs_remove (fs_write (fs_write fs n c) n d) n = fs"
  by (simp add: fs_write_def fs_exists_def fs_remove_def filter_fresh replace_fresh)

lemma job_path_not_temp: "job_path jid \<noteq> temp_path_of e k jid'"
proof
  assume "job_path jid = temp_path_of e k jid'"
  then have "last (job_path jid) = last (temp_path_of e k jid')" by simp
  then show False by (simp add: job_path_def temp_path_of_def)
qed

lemma save_eq:
  "save e w job = (r, j', w') \<Longrightarrow>
     j' = job\<lparr>updated_at := clock e (tick w)\<rparr> \<and> calls w' = calls w \<and>
     tick w' = Suc (Suc (tick w)) \<and>
     ((r \<noteq> None \<and> files w' = files w) \<or>
      (r = None \<and> files w' = fs_write (files w) (job_path (job_id job)) (Serialized j')))"
  using job_path_not_temp [of "job_id job" e "Suc (tick w)" "job_id job"]
  apply (cases "fault e (Suc (tick w))")
  apply (auto simp: save_def save_trace_def utcnow_def Let_def cleanup_def fs_rename_def
       map_of_fs_write fs_exists_write fs_remove_fresh fs_write_twice split: if_splits)
  done

lemma agree_iff:
  "step_artifacts_agree j =
     ((serp_data (artifacts j) \<noteq> None) = (1 \<le> step_index (current_step j)) \<and>
      (theme_analysis (artifacts j) \<noteq> None) = (2 \<le> step_index (current_step j)) \<and>
      (outline (artifacts j) \<noteq> None) = (3 \<le> step_index (current_step j)) \<and>
      (draft_article (artifacts j) \<noteq> None) = (4 \<le> step_index (current_step j)) \<and>
      (final_article (artifacts j) \<noteq> None) = (5 \<le> step_index (current_step j)))"
  by (simp add: step_artifacts_agree_def artifact_steps_def)

lemma agree_cong:
  "step_artifacts_agree j \<Longrightarrow> artifacts j' = artifacts j \<Longrightarrow> current_step j' = current_step j
     \<Longrightarrow> step_artifacts_agree j'"
  by (simp add: agree_iff)

lemma set_fs_write: "set (fs_write fs n c) \<subseteq> insert (n, c) (set fs)"
  by (auto simp: fs_write_def split: if_splits)

lemma persisted_fs_write:
  "j \<in> set (persisted (w\<lparr>files := fs_write (files w) n (Serialized x)\<rparr>))
     \<Longrightarrow> j = x \<or> j \<in> set (persisted w)"
  using set_fs_write [of "files w" n "Serialized x"]
  by (auto simp: persisted_def split: option.splits)

lemma persisted_files_eq: "files w' = files w \<Longrightarrow> persisted w' = persisted w"
  by (simp add: persisted_def)

lemma save_store_ok:
  assumes "save e w job = (r, j', w')" "store_ok w" "step_artifacts_agree job"
  shows "store_ok w' \<and> step_artifacts_agree j' \<and> artifacts j' = artifacts job
         \<and> current_step j' = current_step job \<and> calls w' = calls w"
proof -
  from save_eq [OF assms(1)] have
    j': "j' = job\<lparr>updated_at := clock e (tick w)\<rparr>" and c: "calls w' = calls w" and
    f: "files w' = files w \<or> files w' = fs_write (files w) (job_path (job_id job)) (Serialized j')"
    by auto
  from j' assms(3) have a: "step_artifacts_agree j'" by (simp add: agree_iff)
  have "store_ok w'"
  proof (unfold store_ok_def, rule ballI)
    fix j assume "j \<in> set (persisted w')"
    with f have "j = j' \<or> j \<in> set (persisted w)"
      using set_fs_write [of "files w" "job_path (job_id job)" "Serialized j'"]
      by (auto simp: persisted_def split: option.splits)
    with a assms(2) show "step_artifacts_agree j" by (auto simp: store_ok_def)
  qed
  with a j' c show ?thesis by simp
qed

text \<open>execute_step: on an exception the job is untouched; the files never change.\<close>

lemma execute_step_raise:
  "execute_step e w job s = (Some x, j1, w1) \<Longrightarrow> j1 = job \<and> files w1 = files w"
  by (auto simp: execute_step_def Let_def invoke_def split: if_splits sum.splits option.splits)

lemma execute_step_files:
  "execute_step e w job s = (r, j1, w1) \<Longrightarrow> files w1 = files w"
  by (auto simp: execute_step_def Let_def invoke_def split: if_splits sum.splits option.splits)

lemma execute_step_ok:
  assumes "execute_step e w job s = (None, j1, w1)" "step_artifacts_agree job"
    "step_index s = Suc (step_index (current_step job))"
  shows "step_artifacts_agree (j1\<lparr>current_step := s\<rparr>)"
  using assms
  by (cases s)
     (auto simp: execute_step_def Let_def invoke_def agree_iff
           split: if_splits sum.splits option.splits)

lemma store_ok_files: "store_ok w \<Longrightarrow> files w' = files w \<Longrightarrow> store_ok w'"
  by (simp add: store_ok_def persisted_def)

lemma mark_step_proj:
  "artifacts (fst (mark_step e w j s)) = artifacts j"
  "current_step (fst (mark_step e w j s)) = s"
  "files (snd (mark_step e w j s)) = files w"
  "calls (snd (mark_step e w j s)) = calls w"
  by (simp_all add: mark_step_eq)

lemma mark_failed_proj:
  "artifacts (fst (mark_failed e w j s m d)) = artifacts j"
  "current_step (fst (mark_failed e w j s m d)) = current_step j"
  "files (snd (mark_failed e w j s m d)) = files w"
  "calls (snd (mark_failed e w j s m d)) = calls w"
  by (simp_all add: mark_failed_eq)

lemma mark_running_proj:
  "artifacts (fst (mark_running e w j)) = artifacts j"
  "current_step (fst (mark_running e w j)) = current_step j"
  "files (snd (mark_running e w j)) = files w"
  "calls (snd (mark_running e w j)) = calls w"
  by (simp_all add: mark_running_eq)

lemma checkpoint_inv:
  assumes "checkpoint e w j1 s = (r, j2, w2)" "store_ok w"
    "step_artifacts_agree (j1\<lparr>current_step := s\<rparr>)"
  shows "store_ok w2 \<and> step_artifacts_agree j2 \<and> current_step j2 = s
         \<and> artifacts j2 = artifacts j1"
proof -
  let ?jm = "fst (mark_step e w j1 s)" and ?wm = "snd (mark_step e w j1 s)"
  have a: "step_artifacts_agree ?jm"
    using assms(3) by (simp add: agree_iff mark_step_proj)
  have b: "store_ok ?wm"
    by (rule store_ok_files [OF assms(2)]) (simp add: mark_step_proj)
  have c: "save e ?wm ?jm = (r, j2, w2)"
    using assms(1) by (simp add: checkpoint_def split_beta)
  from save_store_ok [OF c b a] show ?thesis by (simp add: mark_step_proj)
qed

lemma STEP_ORDER_index: "i \<le> 6 \<Longrightarrow> step_index (STEP_ORDER ! i) = i"
proof -
  assume "i \<le> 6"
  then have "i = 0 \<or> i = 1 \<or> i = 2 \<or> i = 3 \<or> i = 4 \<or> i = 5 \<or> i = 6" by arith
  then show ?thesis by (auto simp: STEP_ORDER_def)
qed

lemma run_loop_step:
  "i < m \<Longrightarrow> run_loop e cb [i..<m] w job =
     (case execute_step e w job (STEP_ORDER ! Suc i) of
        (Some x, job1, w1) \<Rightarrow> (Some x, job1, w1)
      | (None, job1, w1) \<Rightarrow>
          (case checkpoint e w1 job1 (STEP_ORDER ! Suc i) of
             (Some x, job2, w2) \<Rightarrow> (Some x, job2, w2)
           | (None, job2, w2) \<Rightarrow>
               (case notify cb job2 of
                  Some x \<Rightarrow> (Some x, job2, w2)
                | None \<Rightarrow>
                    if STEP_ORDER ! Suc i = STEP_COMPLETED then (None, job2, w2)
                    else run_loop e cb [Suc i..<m] w2 job2)))"
  by (simp add: upt_conv_Cons Let_def)

lemma run_loop_inv:
  "store_ok w \<Longrightarrow> step_artifacts_agree job \<Longrightarrow> step_index (current_step job) = i \<Longrightarrow>
   m \<le> 6 \<Longrightarrow> run_loop e cb [i..<m] w job = (r, j', w') \<Longrightarrow>
   store_ok w' \<and> step_artifacts_agree j'"
proof (induction "m - i" arbitrary: i w job)
  case 0
  then show ?case by simp
next
  case (Suc n)
  then have lt: "i < m" by simp
  let ?s = "STEP_ORDER ! Suc i"
  from lt Suc.prems(4) have idx: "step_index ?s = Suc i"
    by (intro STEP_ORDER_index) simp
  obtain r1 j1 w1 where ex: "execute_step e w job ?s = (r1, j1, w1)"
    by (cases "execute_step e w job ?s")
  have f1: "files w1 = files w" using execute_step_files [OF ex] .
  have ok1: "store_ok w1" by (rule store_ok_files [OF Suc.prems(1) f1])
  note unf = Suc.prems(5) [unfolded run_loop_step [OF lt] ex]
  show ?case
  proof (cases r1)
    case (Some x)
    with ex have "j1 = job" using execute_step_raise by blast
    moreover from unf Some have "j' = j1 \<and> w' = w1" by simp
    ultimately show ?thesis using ok1 Suc.prems(2) by simp
  next
    case None
    have a1: "step_artifacts_agree (j1\<lparr>current_step := ?s\<rparr>)"
      by (rule execute_step_ok [OF ex [unfolded None] Suc.prems(2)])
         (simp add: idx Suc.prems(3))
    obtain r2 j2 w2 where cp: "checkpoint e w1 j1 ?s = (r2, j2, w2)"
      by (cases "checkpoint e w1 j1 ?s")
    from checkpoint_inv [OF cp ok1 a1]
    have inv2: "store_ok w2" "step_artifacts_agree j2" "current_step j2 = ?s" by simp_all
    show ?thesis
    proof (cases "r2 = None \<and> notify cb j2 = None \<and> ?s \<noteq> STEP_COMPLETED")
      case True
      with unf None cp
      have rec: "run_loop e cb [Suc i..<m] w2 j2 = (r, j', w')" by simp
      from Suc.hyps(2) have n: "n = m - Suc i" by simp
      have "step_index (current_step j2) = Suc i" by (simp add: inv2(3) idx)
      from Suc.hyps(1) [OF n inv2(1,2) this Suc.prems(4) rec]
      show ?thesis .
    next
      case False
      with unf None cp have "j' = j2 \<and> w' = w2"
        by (auto split: option.splits)
      with inv2 show ?thesis by simp
    qed
  qed
qed

lemma run_start_inv:
  assumes "run_start e cb w job = (r, j', w')" "store_ok w" "step_artifacts_agree job"
  shows "store_ok w' \<and> step_artifacts_agree j'"
proof -
  let ?jm = "fst (mark_running e w job)" and ?wm = "snd (mark_running e w job)"
  have a: "step_artifacts_agree ?jm"
    using assms(3) by (simp add: agree_iff mark_running_proj)
  have b: "store_ok ?wm"
    by (rule store_ok_files [OF assms(2)]) (simp add: mark_running_proj)
  obtain rs js ws where sv: "save e ?wm ?jm = (rs, js, ws)" by (cases "save e ?wm ?jm")
  from assms(1) sv have "j' = js \<and> w' = ws"
    by (auto simp: run_start_def split_beta split: option.splits)
  with save_store_ok [OF sv b a] show ?thesis by simp
qed

lemma run_except_inv:
  assumes "run_except e cb w job x = (r, j', w')" "store_ok w" "step_artifacts_agree job"
  shows "store_ok w' \<and> step_artifacts_agree j'"
proof -
  let ?m = "mark_failed e w job (current_step job) (exn_str x) (Some (exn_repr x))"
  have a: "step_artifacts_agree (fst ?m)"
    using assms(3) by (simp add: agree_iff mark_failed_proj)
  have b: "store_ok (snd ?m)"
    by (rule store_ok_files [OF assms(2)]) (simp add: mark_failed_proj)
  obtain rs js ws where sv: "save e (snd ?m) (fst ?m) = (rs, js, ws)"
    by (cases "save e (snd ?m) (fst ?m)")
  from assms(1) sv have "j' = js \<and> w' = ws"
    by (auto simp: run_except_def split_beta split: option.splits)
  with save_store_ok [OF sv b a] show ?thesis by simp
qed

lemma run_try_eq:
  "run_try e cb w job = run_loop e cb [step_index (current_step job)..<6] w job"
proof -
  have "length STEP_ORDER - 1 = 6" by (simp add: STEP_ORDER_def)
  then show ?thesis by (simp only: run_try_def index_of_STEP_ORDER option.case)
qed

lemma run_inv:
  assumes "run e cb w job = (r, j', w')" "store_ok w" "step_artifacts_agree job"
  shows "store_ok w' \<and> step_artifacts_agree j'"
proof -
  obtain r1 j1 w1 where st: "run_start e cb w job = (r1, j1, w1)"
    by (cases "run_start e cb w job")
  from run_start_inv [OF st assms(2,3)] have inv1: "store_ok w1" "step_artifacts_agree j1"
    by simp_all
  show ?thesis
  proof (cases r1)
    case (Some x)
    with assms(1) st inv1 show ?thesis by (simp add: run_def)
  next
    case None
    obtain r2 j2 w2 where tr: "run_try e cb w1 j1 = (r2, j2, w2)"
      by (cases "run_try e cb w1 j1")
    from run_loop_inv [OF inv1 refl _ tr [unfolded run_try_eq]]
    have inv2: "store_ok w2" "step_artifacts_agree j2" by simp_all
    show ?thesis
    proof (cases r2)
      case None
      with assms(1) st \<open>r1 = None\<close> tr inv2 show ?thesis by (simp add: run_def)
    next
      case (Some x)
      with assms(1) st \<open>r1 = None\<close> tr have "run_except e cb w2 j2 x = (r, j', w')"
        by (simp add: run_def)
      from run_except_inv [OF this inv2] show ?thesis .
    qed
  qed
qed

lemma get_persisted: "get w jid = Some j \<Longrightarrow> j \<in> set (persisted w)"
proof -
  assume "get w jid = Some j"
  then obtain c where c: "map_of (files w) (job_path jid) = Some c" "parse_job c = Some j"
    by (auto simp: get_def split: option.splits)
  then have "(job_path jid, c) \<in> set (files w)" by (simp add: map_of_SomeD)
  with c(2) show ?thesis by (force simp: persisted_def)
qed

lemma resume_inv:
  assumes "resume e w jid = (r, Some j', w')" "store_ok w"
  shows "store_ok w' \<and> step_artifacts_agree j'"
proof -
  from assms(1) obtain job where g: "get w jid = Some job"
    by (auto simp: resume_def split: option.splits)
  with assms(2) have a: "step_artifacts_agree job"
    using get_persisted by (auto simp: store_ok_def)
  show ?thesis
  proof (cases "status job = COMPLETED \<or> status job \<notin> set [FAILED, RUNNING]")
    case True
    with assms(1) g have "j' = job \<and> w' = w" by (auto simp: resume_def split: if_splits)
    with a assms(2) show ?thesis by simp
  next
    case False
    let ?j1 = "job\<lparr>error := None, retry_count := retry_count job + 1\<rparr>"
    from a have a1: "step_artifacts_agree ?j1" by (simp add: agree_iff)
    obtain rr jr wr where rn: "run e None w ?j1 = (rr, jr, wr)" by (cases "run e None w ?j1")
    with False assms(1) g have "j' = jr \<and> w' = wr"
      by (auto simp: resume_def Let_def split: if_splits)
    with run_inv [OF rn assms(2) a1] show ?thesis by simp
  qed
qed

lemma create_inv:
  assumes "create e w inp = (r, j, w')" "store_ok w"
  shows "store_ok w' \<and> step_artifacts_agree j"
proof -
  let ?w3 = "w\<lparr>tick := Suc (Suc (Suc (tick w)))\<rparr>"
  let ?job = "\<lparr>job_id = take 8 (uuid4 e (tick w)), input = inp, status = PENDING,
               current_step = CREATED, created_at = clock e (Suc (tick w)),
               updated_at = clock e (Suc (Suc (tick w))), completed_at = None,
               artifacts = empty_artifacts, error = None, retry_count = 0\<rparr>"
  have sv: "save e ?w3 ?job = (r, j, w')"
    using assms(1) by (simp add: create_def utcnow_def Let_def)
  have a: "step_artifacts_agree ?job" by (simp add: agree_iff empty_artifacts_def)
  have b: "store_ok ?w3" by (rule store_ok_files [OF assms(2)]) simp
  from save_store_ok [OF sv b a] show ?thesis by simp
qed

lemma reachable_inv:
  "reachable e w js \<Longrightarrow> store_ok w \<and> (\<forall>j \<in> set js. step_artifacts_agree j)"
proof (induction rule: reachable.induct)
  case (start n)
  show ?case by (simp add: store_ok_def persisted_def)
next
  case (created w js inp r j w')
  with create_inv [of e w inp r j w'] show ?case by simp
next
  case (loaded w js jid j)
  with get_persisted [of w jid j] show ?case by (auto simp: store_ok_def)
next
  case (ran w js j cb r j' w')
  with run_inv [of e cb w j r j' w'] show ?case by simp
next
  case (resumed w js jid r j' w')
  with resume_inv [of e w jid r j' w'] show ?case by simp
qed

lemma demo_reachable:
  "reachable e (snd (snd (demo_ran e))) [fst (snd (demo_ran e)), fst (snd (demo_created e))]"
proof -
  have 0: "reachable e demo_world []" unfolding demo_world_def by (rule reachable.start)
  have 1: "reachable e (snd (snd (demo_created e))) [fst (snd (demo_created e))]"
    by (rule reachable.created [OF 0, of demo_input "fst (demo_created e)"])
       (simp add: demo_created_def)
  show ?thesis
    by (rule reachable.ran [OF 1, of _ None "fst (demo_ran e)"]) (simp_all add: demo_ran_def)
qed

lemma demo_done_reachable:
  "reachable demo_env demo_done_world [demo_done_job, fst (snd (demo_created demo_env))]"
  unfolding demo_done_world_def demo_done_job_def by (rule demo_reachable)

lemma demo_failed_reachable:
  "reachable demo_env_theme_fails demo_failed_world
     [demo_failed_job, fst (snd (demo_created demo_env_theme_fails))]"
  unfolding demo_failed_world_def demo_failed_job_def by (rule demo_reachable)

lemma reachable_persisted_agree:
  "reachable e w js \<Longrightarrow> j \<in> set (persisted w) \<Longrightarrow> step_artifacts_agree j"
  using reachable_inv [of e w js] by (simp add: store_ok_def)

lemma NotFound_neq_InvalidState: "NotFound jid \<noteq> InvalidState jid' st"
  by (simp add: NotFound_def InvalidState_def)


lemma STEP_ORDER_completed: "Suc i \<le> 6 \<Longrightarrow> STEP_ORDER ! Suc i = STEP_COMPLETED \<Longrightarrow> Suc i = 6"
  using STEP_ORDER_index [of "Suc i"] by simp

lemma checkpoint_current:
  "checkpoint e w j1 s = (r, j2, w2) \<Longrightarrow> current_step j2 = s"
proof -
  assume a: "checkpoint e w j1 s = (r, j2, w2)"
  then have "save e (snd (mark_step e w j1 s)) (fst (mark_step e w j1 s)) = (r, j2, w2)"
    by (simp add: checkpoint_def split_beta)
  from save_eq [OF this] show ?thesis by (simp add: mark_step_proj)
qed

lemma run_loop_prefix:
  "run_loop e cb [i..<m] w job = (None, jm, wm) \<Longrightarrow> m \<le> n \<Longrightarrow> n \<le> 6 \<Longrightarrow>
   step_index (current_step job) = i \<Longrightarrow> i \<le> m \<Longrightarrow>
   run_loop e cb [i..<n] w job = run_loop e cb [m..<n] wm jm
   \<and> step_index (current_step jm) = m"
proof (induction "m - i" arbitrary: i w job)
  case 0
  then show ?case by simp
next
  case (Suc k)
  then have lt: "i < m" and ltn: "i < n" by simp_all
  let ?s = "STEP_ORDER ! Suc i"
  from lt Suc.prems(2,3) have si: "Suc i \<le> 6" by simp
  obtain r1 j1 w1 where ex: "execute_step e w job ?s = (r1, j1, w1)"
    by (cases "execute_step e w job ?s")
  obtain r2 j2 w2 where cp: "checkpoint e w1 j1 ?s = (r2, j2, w2)"
    by (cases "checkpoint e w1 j1 ?s")
  note unf = Suc.prems(1) [unfolded run_loop_step [OF lt] ex]
  from unf have r1: "r1 = None" by (cases r1) simp_all
  from unf r1 cp have r2: "r2 = None" by (cases r2) simp_all
  from unf r1 r2 cp have nt: "notify cb j2 = None" by (cases "notify cb j2") simp_all
  have cur: "step_index (current_step j2) = Suc i"
    using checkpoint_current [OF cp] STEP_ORDER_index [OF si] by simp
  show ?case
  proof (cases "?s = STEP_COMPLETED")
    case True
    have "Suc i = 6" by (rule STEP_ORDER_completed [OF si True])
    with lt Suc.prems(2,3) have mn: "m = 6" "n = 6" "m = Suc i" by simp_all
    from unf r1 r2 cp nt True have "jm = j2 \<and> wm = w2" by simp
    moreover have "run_loop e cb [i..<n] w job = (None, j2, w2)"
      using run_loop_step [OF ltn, of e cb w job] ex r1 cp r2 nt True by simp
    ultimately show ?thesis using mn cur by simp
  next
    case False
    with unf r1 r2 cp nt have rec: "run_loop e cb [Suc i..<m] w2 j2 = (None, jm, wm)" by simp
    from Suc.hyps(2) have k: "k = m - Suc i" by simp
    from lt have le: "Suc i \<le> m" by simp
    from Suc.hyps(1) [OF k rec Suc.prems(2,3) cur le]
    have ih: "run_loop e cb [Suc i..<n] w2 j2 = run_loop e cb [m..<n] wm jm"
      "step_index (current_step jm) = m" by simp_all
    have "run_loop e cb [i..<n] w job = run_loop e cb [Suc i..<n] w2 j2"
      using run_loop_step [OF ltn, of e cb w job] ex r1 cp r2 nt False by simp
    with ih show ?thesis by simp
  qed
qed

lemma run_except_eq:
  assumes "run_except e cb w job x = (r, j', w')"
  shows "r \<noteq> None \<and> current_step j' = current_step job \<and> artifacts j' = artifacts job
         \<and> status j' = FAILED \<and> job_id j' = job_id job
         \<and> map_option step (error j') = Some (current_step job)
         \<and> map_option message (error j') = Some (exn_str x)
         \<and> calls w' = calls w
         \<and> (files w' = files w \<or> (get w' (job_id job) = Some j' \<and> (r = Some x \<or> cb \<noteq> None)))"
proof -
  let ?m = "mark_failed e w job (current_step job) (exn_str x) (Some (exn_repr x))"
  obtain rs js ws where sv: "save e (snd ?m) (fst ?m) = (rs, js, ws)"
    by (cases "save e (snd ?m) (fst ?m)")
  from save_eq [OF sv] have
    js: "js = (fst ?m)\<lparr>updated_at := clock e (tick (snd ?m))\<rparr>" and
    c: "calls ws = calls w" and
    f: "(rs \<noteq> None \<and> files ws = files w)
        \<or> (rs = None \<and> files ws = fs_write (files w) (job_path (job_id job)) (Serialized js))"
    by (auto simp: mark_failed_proj mark_failed_eq)
  from f have g: "(rs \<noteq> None \<and> files ws = files w) \<or> (rs = None \<and> get ws (job_id job) = Some js)"
    by (auto simp: get_def map_of_fs_write)
  from js have p: "current_step js = current_step job" "artifacts js = artifacts job"
    "status js = FAILED" "job_id js = job_id job"
    "map_option step (error js) = Some (current_step job)"
    "map_option message (error js) = Some (exn_str x)"
    by (simp_all add: mark_failed_eq)
  have "run_except e cb w job x =
      (case rs of Some y \<Rightarrow> (Some y, js, ws)
       | None \<Rightarrow> (case notify cb js of Some y \<Rightarrow> (Some y, js, ws) | None \<Rightarrow> (Some x, js, ws)))"
    unfolding run_except_def split_beta Let_def sv by (simp split: option.splits)
  then have res: "(r, j', w') =
      (case rs of Some y \<Rightarrow> (Some y, js, ws)
       | None \<Rightarrow> (case notify cb js of Some y \<Rightarrow> (Some y, js, ws) | None \<Rightarrow> (Some x, js, ws)))"
    by (simp only: assms)
  then have jw: "j' = js \<and> w' = ws"
    by (cases rs; cases "notify cb js") simp_all
  from res have "r \<noteq> None"
    by (cases rs; cases "notify cb js") simp_all
  moreover from res g jw
  have "files w' = files w \<or> (get w' (job_id job) = Some j' \<and> (r = Some x \<or> cb \<noteq> None))"
    by (cases rs; cases "notify cb js") (auto simp: notify_def)
  ultimately show ?thesis using jw p c by simp
qed

lemma set_insert_desc: "set (insert_desc f x ys) = insert x (set ys)"
  by (induction ys) auto

lemma length_insert_desc: "length (insert_desc f x ys) = Suc (length ys)"
  by (induction ys) auto

lemma set_sort_desc: "set (sort_desc f xs) = set xs"
  by (induction xs) (simp_all add: sort_desc_def set_insert_desc)

lemma length_sort_desc: "length (sort_desc f xs) = length xs"
  by (induction xs) (simp_all add: sort_desc_def length_insert_desc)

lemma concat_filter_jobs:
  "concat (map (\<lambda>p. if A p then []
                     else (case parse_job (snd p) of
                             None \<Rightarrow> []
                           | Some job \<Rightarrow> if Q job then [job] else [])) fs)
     = filter Q (concat (map (\<lambda>p. if A p then []
                     else (case parse_job (snd p) of None \<Rightarrow> [] | Some job \<Rightarrow> [job])) fs))"
  by (induction fs) (auto split: option.splits)

lemma list_jobs_eq:
  "list_jobs w st limit =
     slice_to limit (sort_desc created_at
       (filter (\<lambda>j. st = None \<or> st = Some (status j)) (stored_jobs w)))"
  unfolding list_jobs_def stored_jobs_def Let_def by (simp only: concat_filter_jobs)

lemma get_resumable_jobs_eq:
  "get_resumable_jobs w =
     take 100 (sort_desc created_at (filter (\<lambda>j. status j = RUNNING) (stored_jobs w)))
     @ take 100 (sort_desc created_at (filter (\<lambda>j. status j = FAILED) (stored_jobs w)))"
proof -
  have a: "(\<lambda>j. Some RUNNING = None \<or> Some RUNNING = Some (status j)) = (\<lambda>j. status j = RUNNING)"
    by auto
  have b: "(\<lambda>j. Some FAILED = None \<or> Some FAILED = Some (status j)) = (\<lambda>j. status j = FAILED)"
    by auto
  show ?thesis
    by (simp add: get_resumable_jobs_def list_jobs_eq slice_to_def a b eq_commute [of RUNNING]
          eq_commute [of FAILED])
qed

lemma foldr_insert_desc_top:
  "\<forall>y \<in> set xs. f y < f x \<Longrightarrow>
   foldr (insert_desc f) xs [x] = x # foldr (insert_desc f) xs []"
  by (induction xs) auto

lemma sort_desc_snoc:
  "\<forall>y \<in> set xs. f y < f x \<Longrightarrow> sort_desc f (xs @ [x]) = x # sort_desc f xs"
  by (simp add: sort_desc_def foldr_insert_desc_top)

lemma created_at_crowded: "created_at (crowded_job k) = k"
  by (simp add: crowded_job_def)

lemma status_crowded: "status (crowded_job k) = RUNNING"
  by (simp add: crowded_job_def)

lemma sort_desc_crowded:
  "sort_desc created_at (map crowded_job [0..<n]) = map crowded_job (rev [0..<n])"
proof (induction n)
  case 0
  show ?case by (simp add: sort_desc_def)
next
  case (Suc n)
  have "sort_desc created_at (map crowded_job [0..<n] @ [crowded_job n])
          = crowded_job n # sort_desc created_at (map crowded_job [0..<n])"
    by (rule sort_desc_snoc) (simp add: created_at_crowded)
  with Suc show ?case by simp
qed

lemma stored_crowded_files:
  "concat (map (\<lambda>p. if prefix ''.'' (fst p) then []
                        else (case parse_job (snd p) of None \<Rightarrow> [] | Some job \<Rightarrow> [job]))
            (filter (\<lambda>p. suffix ''.json'' (fst p))
               (map (\<lambda>k. (job_path (job_id (crowded_job k)), Serialized (crowded_job k))) ks)))
     = map crowded_job ks"
  by (induction ks) (simp_all add: job_path_def crowded_job_def suffix_def)

lemma stored_jobs_crowded: "stored_jobs crowded_world = map crowded_job [0..<101]"
  unfolding stored_jobs_def crowded_world_def crowded_files_def
  by (simp only: world.simps stored_crowded_files)

lemma resumable_crowded:
  "get_resumable_jobs crowded_world = map crowded_job (rev [1..<101])"
proof -
  have r: "filter (\<lambda>j. status j = RUNNING) (map crowded_job ks) = map crowded_job ks" for ks
    by (induction ks) (simp_all add: status_crowded)
  have f: "filter (\<lambda>j. status j = FAILED) (map crowded_job ks) = []" for ks
    by (induction ks) (simp_all add: status_crowded)
  have t: "take 100 (rev [0..<101]) = rev [1..<101]"
    by (simp only: take_rev length_upt drop_upt) simp
  have "get_resumable_jobs crowded_world = take 100 (map crowded_job (rev [0..<101]))"
    by (simp only: get_resumable_jobs_eq stored_jobs_crowded r f sort_desc_crowded)
       (simp add: sort_desc_def)
  also have "\<dots> = map crowded_job (rev [1..<101])"
    by (simp only: take_map t)
  finally show ?thesis .
qed

lemma drop_artifact_steps:
  "i < 5 \<Longrightarrow> drop i artifact_steps = STEP_ORDER ! Suc i # drop (Suc i) artifact_steps"
proof -
  assume "i < 5"
  then have "i = 0 \<or> i = 1 \<or> i = 2 \<or> i = 3 \<or> i = 4" by arith
  then show ?thesis by (auto simp: artifact_steps_def STEP_ORDER_def)
qed

lemma STEP_ORDER_artifact: "i < 5 \<Longrightarrow> STEP_ORDER ! Suc i \<in> set artifact_steps"
proof -
  assume "i < 5"
  then have "i = 0 \<or> i = 1 \<or> i = 2 \<or> i = 3 \<or> i = 4" by arith
  then show ?thesis by (auto simp: artifact_steps_def STEP_ORDER_def)
qed

lemma STEP_ORDER_last: "STEP_ORDER ! 6 = STEP_COMPLETED" "STEP_ORDER ! Suc 5 = STEP_COMPLETED"
  by (simp_all add: STEP_ORDER_def)

lemma execute_step_effect:
  assumes "execute_step e w job s = (r, j1, w1)"
  shows "retry_count j1 = retry_count job \<and> error j1 = error job
         \<and> current_step j1 = current_step job
         \<and> (r = None \<longrightarrow> calls w1 = calls w @ (if s \<in> set artifact_steps then [s] else []))
         \<and> (calls w1 = calls w \<or> (calls w1 = calls w @ [s] \<and> s \<in> set artifact_steps))"
  using assms
  by (cases s)
     (auto simp: execute_step_def Let_def invoke_def artifact_steps_def
           split: if_splits sum.splits option.splits)

lemma checkpoint_effect:
  assumes "checkpoint e w j1 s = (r, j2, w2)"
  shows "calls w2 = calls w \<and> retry_count j2 = retry_count j1 \<and> error j2 = error j1
         \<and> current_step j2 = s"
proof -
  from assms have "save e (snd (mark_step e w j1 s)) (fst (mark_step e w j1 s)) = (r, j2, w2)"
    by (simp add: checkpoint_def split_beta)
  from save_eq [OF this] show ?thesis by (simp add: mark_step_proj mark_step_eq)
qed

lemma run_loop_calls:
  "run_loop e cb [i..<6] w job = (r, j', w') \<Longrightarrow> step_index (current_step job) = i \<Longrightarrow>
   \<exists>xs. calls w' = calls w @ xs \<and> prefix xs (drop i artifact_steps)
        \<and> retry_count j' = retry_count job \<and> error j' = error job
        \<and> i \<le> step_index (current_step j')
        \<and> (r = None \<longrightarrow> xs = drop i artifact_steps \<and> current_step j' = STEP_COMPLETED)"
proof (induction "6 - i" arbitrary: i w job)
  case 0
  then have "i = 6" using step_index_le [of "current_step job"] by simp
  with 0 have "current_step job = STEP_COMPLETED"
    using step_index_inj [of "current_step job" STEP_COMPLETED] by simp
  with 0 \<open>i = 6\<close> show ?case by (simp add: artifact_steps_def)
next
  case (Suc n)
  then have lt: "i < 6" by simp
  let ?s = "STEP_ORDER ! Suc i"
  from lt have si: "Suc i \<le> 6" by simp
  obtain r1 j1 w1 where ex: "execute_step e w job ?s = (r1, j1, w1)"
    by (cases "execute_step e w job ?s")
  note e1 = execute_step_effect [OF ex]
  note unf = Suc.prems(1) [unfolded run_loop_step [OF lt] ex]
  show ?case
  proof (cases r1)
    case (Some x)
    with unf have jw: "j' = j1" "w' = w1" "r = Some x" by simp_all
    from e1 have "calls w1 = calls w \<or> (calls w1 = calls w @ [?s] \<and> ?s \<in> set artifact_steps)"
      by simp
    then show ?thesis
    proof
      assume "calls w1 = calls w"
      with jw e1 Suc.prems(2) show ?thesis by (intro exI [of _ "[]"]) simp
    next
      assume a: "calls w1 = calls w @ [?s] \<and> ?s \<in> set artifact_steps"
      have "i < 5"
      proof (rule ccontr)
        assume "\<not> i < 5"
        with lt have "i = 5" by simp
        with a show False by (simp add: STEP_ORDER_def artifact_steps_def)
      qed
      with a jw e1 Suc.prems(2) show ?thesis
        by (intro exI [of _ "[?s]"]) (simp add: drop_artifact_steps)
    qed
  next
    case None
    obtain r2 j2 w2 where cp: "checkpoint e w1 j1 ?s = (r2, j2, w2)"
      by (cases "checkpoint e w1 j1 ?s")
    note e2 = checkpoint_effect [OF cp]
    have cur: "step_index (current_step j2) = Suc i"
      using e2 STEP_ORDER_index [OF si] by simp
    have c2: "calls w2 = calls w @ (if ?s \<in> set artifact_steps then [?s] else [])"
      using e1 e2 None by simp
    have keep: "retry_count j2 = retry_count job" "error j2 = error job"
      using e1 e2 by simp_all
    have pre: "prefix (if ?s \<in> set artifact_steps then [?s] else []) (drop i artifact_steps)"
    proof (cases "i < 5")
      case True
      then show ?thesis by (simp add: drop_artifact_steps STEP_ORDER_artifact)
    next
      case False
      with lt have "i = 5" by simp
      then show ?thesis by (simp add: STEP_ORDER_last artifact_steps_def)
    qed
    show ?thesis
    proof (cases "r2 = None \<and> notify cb j2 = None")
      case False
      with unf None cp have jw: "j' = j2 \<and> w' = w2 \<and> r \<noteq> None"
        by (cases r2; cases "notify cb j2") auto
      then have "r \<noteq> None" "j' = j2" "w' = w2" by simp_all
      with c2 keep cur pre show ?thesis
        by (intro exI [of _ "if ?s \<in> set artifact_steps then [?s] else []"]) auto
    next
      case True
      show ?thesis
      proof (cases "?s = STEP_COMPLETED")
        case sc: True
        have "Suc i = 6" by (rule STEP_ORDER_completed [OF si sc])
        then have i5: "i = 5" by simp
        from unf None cp True sc have jw: "j' = j2" "w' = w2" by simp_all
        from sc have "?s \<notin> set artifact_steps" by (simp add: artifact_steps_def)
        with c2 have "calls w2 = calls w" by simp
        with jw keep cur e2 sc i5 show ?thesis
          by (intro exI [of _ "[]"]) (simp add: artifact_steps_def)
      next
        case nc: False
        with si have i5: "i < 5" using STEP_ORDER_last by (cases "i = 5") auto
        from unf None cp True nc
        have rec: "run_loop e cb [Suc i..<6] w2 j2 = (r, j', w')" by simp
        from Suc.hyps(2) have n: "n = 6 - Suc i" by simp
        from Suc.hyps(1) [OF n rec cur] obtain ys where
          ys: "calls w' = calls w2 @ ys" "prefix ys (drop (Suc i) artifact_steps)"
              "retry_count j' = retry_count j2" "error j' = error j2"
              "Suc i \<le> step_index (current_step j')"
              "r = None \<longrightarrow> ys = drop (Suc i) artifact_steps \<and> current_step j' = STEP_COMPLETED"
          by blast
        from c2 i5 have c2': "calls w2 = calls w @ [?s]" by (simp add: STEP_ORDER_artifact)
        from ys c2' keep i5 show ?thesis
          by (intro exI [of _ "?s # ys"]) (simp add: drop_artifact_steps)
      qed
    qed
  qed
qed

lemma run_start_effect:
  assumes "run_start e cb w job = (r, j', w')"
  shows "calls w' = calls w \<and> retry_count j' = retry_count job \<and> error j' = error job
         \<and> current_step j' = current_step job"
proof -
  let ?jm = "fst (mark_running e w job)" and ?wm = "snd (mark_running e w job)"
  obtain rs js ws where sv: "save e ?wm ?jm = (rs, js, ws)" by (cases "save e ?wm ?jm")
  from assms sv have "j' = js \<and> w' = ws"
    by (auto simp: run_start_def split_beta split: option.splits)
  with save_eq [OF sv] show ?thesis by (simp add: mark_running_proj mark_running_eq)
qed

lemma run_except_keeps:
  assumes "run_except e cb w job x = (r, j', w')"
  shows "retry_count j' = retry_count job"
proof -
  let ?m = "mark_failed e w job (current_step job) (exn_str x) (Some (exn_repr x))"
  obtain rs js ws where sv: "save e (snd ?m) (fst ?m) = (rs, js, ws)"
    by (cases "save e (snd ?m) (fst ?m)")
  have "run_except e cb w job x =
      (case rs of Some y \<Rightarrow> (Some y, js, ws)
       | None \<Rightarrow> (case notify cb js of Some y \<Rightarrow> (Some y, js, ws) | None \<Rightarrow> (Some x, js, ws)))"
    unfolding run_except_def split_beta Let_def sv by (simp split: option.splits)
  with assms have "j' = js" by (cases rs; cases "notify cb js") simp_all
  with save_eq [OF sv] show ?thesis by (simp add: mark_failed_eq)
qed

lemma run_effect:
  assumes "run e cb w job = (r, j', w')"
  shows "\<exists>xs. calls w' = calls w @ xs
           \<and> prefix xs (drop (step_index (current_step job)) artifact_steps)
           \<and> retry_count j' = retry_count job
           \<and> step_index (current_step job) \<le> step_index (current_step j')
           \<and> (r = None \<longrightarrow> xs = drop (step_index (current_step job)) artifact_steps
                  \<and> current_step j' = STEP_COMPLETED \<and> error j' = error job)"
proof -
  obtain r1 j1 w1 where st: "run_start e cb w job = (r1, j1, w1)"
    by (cases "run_start e cb w job")
  note s1 = run_start_effect [OF st]
  show ?thesis
  proof (cases r1)
    case (Some x)
    with assms st have "r = Some x" "j' = j1" "w' = w1" by (simp_all add: run_def)
    with s1 show ?thesis by (intro exI [of _ "[]"]) simp
  next
    case None
    obtain r2 j2 w2 where tr: "run_try e cb w1 j1 = (r2, j2, w2)"
      by (cases "run_try e cb w1 j1")
    from run_loop_calls [OF tr [unfolded run_try_eq] refl] obtain xs where
      xs: "calls w2 = calls w1 @ xs" "prefix xs (drop (step_index (current_step j1)) artifact_steps)"
          "retry_count j2 = retry_count j1" "error j2 = error j1"
          "step_index (current_step j1) \<le> step_index (current_step j2)"
          "r2 = None \<longrightarrow> xs = drop (step_index (current_step j1)) artifact_steps
                        \<and> current_step j2 = STEP_COMPLETED"
      by blast
    show ?thesis
    proof (cases r2)
      case n2: None
      with assms st None tr have "r = None" "j' = j2" "w' = w2" by (simp_all add: run_def)
      with xs s1 n2 show ?thesis by (intro exI [of _ xs]) simp
    next
      case (Some x)
      with assms st None tr have rx: "run_except e cb w2 j2 x = (r, j', w')"
        by (simp add: run_def)
      from run_except_eq [OF rx] have rn: "r \<noteq> None" "current_step j' = current_step j2"
        "calls w' = calls w2" by simp_all
      with run_except_keeps [OF rx] xs s1 show ?thesis
        by (intro exI [of _ xs]) auto
    qed
  qed
qed

text \<open>What \<open>get_resumable_jobs\<close> computes.\<close>

lemma resumable_jobs_capped:
  "get_resumable_jobs w =
     take 100 (sort_desc created_at (filter (\<lambda>j. status j = RUNNING) (stored_jobs w)))
     @ take 100 (sort_desc created_at (filter (\<lambda>j. status j = FAILED) (stored_jobs w)))
   \<and> set (get_resumable_jobs w)
       \<subseteq> {j \<in> set (stored_jobs w). status j = RUNNING \<or> status j = FAILED}
   \<and> (length (filter (\<lambda>j. status j = RUNNING) (stored_jobs w)) \<le> 100
       \<and> length (filter (\<lambda>j. status j = FAILED) (stored_jobs w)) \<le> 100
       \<longrightarrow> set (get_resumable_jobs w)
             = {j \<in> set (stored_jobs w). status j = RUNNING \<or> status j = FAILED})"
proof (intro conjI impI)
  show "get_resumable_jobs w =
     take 100 (sort_desc created_at (filter (\<lambda>j. status j = RUNNING) (stored_jobs w)))
     @ take 100 (sort_desc created_at (filter (\<lambda>j. status j = FAILED) (stored_jobs w)))"
    by (rule get_resumable_jobs_eq)
next
  show "set (get_resumable_jobs w)
       \<subseteq> {j \<in> set (stored_jobs w). status j = RUNNING \<or> status j = FAILED}"
  proof
    fix j assume "j \<in> set (get_resumable_jobs w)"
    then have "j \<in> set (sort_desc created_at (filter (\<lambda>j. status j = RUNNING) (stored_jobs w)))
             \<or> j \<in> set (sort_desc created_at (filter (\<lambda>j. status j = FAILED) (stored_jobs w)))"
      unfolding get_resumable_jobs_eq by (auto dest: in_set_takeD)
    then show "j \<in> {j \<in> set (stored_jobs w). status j = RUNNING \<or> status j = FAILED}"
      by (auto simp: set_sort_desc)
  qed
next
  assume "length (filter (\<lambda>j. status j = RUNNING) (stored_jobs w)) \<le> 100 \<and>
          length (filter (\<lambda>j. status j = FAILED) (stored_jobs w)) \<le> 100"
  then show "set (get_resumable_jobs w)
             = {j \<in> set (stored_jobs w). status j = RUNNING \<or> status j = FAILED}"
    unfolding get_resumable_jobs_eq
    by (auto simp: length_sort_desc set_sort_desc)
qed

section \<open>Theorems\<close>



text \<open>
  C7. If a failure strikes inside \<open>JobStore.save\<close> (at \<open>mkstemp\<close>, while serialising,
  while writing, or at the rename) and a record for the job's identifier was committed
  before, then \<open>save\<close> raises, the committed record is what \<open>get\<close> returns in every
  state the directory passes through, and at the end the directory is what it was: the
  temporary file is gone and nothing was written under the final path.
\<close>

theorem save_failure_leaves_record:
  assumes "fault e (Suc (tick w)) \<noteq> NoFault"
    and "get w (job_id job) = Some old"
  shows "\<exists>x job1 ws. save_trace e w job = (Some x, job1, ws)
           \<and> (\<forall>w' \<in> set ws. get w' (job_id job) = Some old)
           \<and> files (last ws) = files w"
  using assms job_path_not_temp [of "job_id job" e "Suc (tick w)" "job_id job"]
  apply (cases "fault e (Suc (tick w))")
  apply (auto simp: save_trace_def utcnow_def Let_def get_def cleanup_def map_of_fs_write
       map_of_fs_remove fs_exists_write fs_remove_fresh fs_write_twice)
  done

theorem save_failure_leaves_record_witness:
  "fault demo_env_write_fails (Suc (tick demo_new_world)) \<noteq> NoFault
   \<and> get demo_new_world (job_id (demo_new_job\<lparr>retry_count := 5\<rparr>)) = Some demo_new_job
   \<and> (\<exists>x job1 ws.
         save_trace demo_env_write_fails demo_new_world (demo_new_job\<lparr>retry_count := 5\<rparr>)
           = (Some x, job1, ws)
         \<and> (\<forall>w' \<in> set ws. get w' (job_id (demo_new_job\<lparr>retry_count := 5\<rparr>)) = Some demo_new_job)
         \<and> files (last ws) = files demo_new_world)"
proof -
  have h1: "fault demo_env_write_fails (Suc (tick demo_new_world)) \<noteq> NoFault"
    by (simp add: demo_env_write_fails_def)
  have h2: "get demo_new_world (job_id (demo_new_job\<lparr>retry_count := 5\<rparr>)) = Some demo_new_job"
    by code_simp
  from save_failure_leaves_record [OF h1 h2] h1 h2 show ?thesis by blast
qed

text \<open>
  C1, as stated: in every job state persisted by create, run and resume, \<open>current_step\<close>
  is the highest step whose artifact is present. It fails for a job that ran to the end:
  its \<open>current_step\<close> is \<open>completed\<close>, a step that has no artifact, one ahead of
  \<open>seo_validation\<close>, the highest step whose artifact is present.
\<close>

theorem current_step_highest_counterexample:
  "reachable demo_env demo_done_world [demo_done_job, fst (snd (demo_created demo_env))]
   \<and> demo_done_job \<in> set (persisted demo_done_world)
   \<and> current_step demo_done_job = STEP_COMPLETED
   \<and> highest_step demo_done_job = Some SEO_VALIDATION
   \<and> highest_step demo_done_job \<noteq> Some (current_step demo_done_job)"
proof -
  have "demo_done_job \<in> set (persisted demo_done_world)" by code_simp
  moreover have "current_step demo_done_job = STEP_COMPLETED" by code_simp
  moreover have "highest_step demo_done_job = Some SEO_VALIDATION" by code_simp
  ultimately show ?thesis using demo_done_reachable by simp
qed

text \<open>
  C1, amended: in every job state persisted by create, run and resume, the highest step
  whose artifact is present is \<open>current_step\<close> itself, except at the two steps that have
  no artifact: at \<open>created\<close> no artifact is present, and at \<open>completed\<close> the highest is
  \<open>seo_validation\<close>. So no artifact is ever present for a step after \<open>current_step\<close>.
\<close>

theorem current_step_highest:
  assumes "reachable e w js" and "j \<in> set (persisted w)"
  shows "highest_step j =
           (if current_step j = CREATED then None
            else if current_step j = STEP_COMPLETED then Some SEO_VALIDATION
            else Some (current_step j))"
proof -
  from assms have "step_artifacts_agree j" by (rule reachable_persisted_agree)
  then show ?thesis
    by (cases "current_step j")
       (simp_all add: agree_iff highest_step_def highest_artifact_step_def STEP_ORDER_def)
qed

theorem current_step_highest_witness:
  "reachable demo_env_theme_fails demo_failed_world
     [demo_failed_job, fst (snd (demo_created demo_env_theme_fails))]
   \<and> demo_failed_job \<in> set (persisted demo_failed_world)
   \<and> current_step demo_failed_job = SERP_ANALYSIS
   \<and> highest_step demo_failed_job = Some SERP_ANALYSIS"
proof -
  have m: "demo_failed_job \<in> set (persisted demo_failed_world)" by code_simp
  have c: "current_step demo_failed_job = SERP_ANALYSIS" by code_simp
  from current_step_highest [OF demo_failed_reachable m] c
  have "highest_step demo_failed_job = Some SERP_ANALYSIS" by simp
  with demo_failed_reachable m c show ?thesis by simp
qed

text \<open>
  C2, as stated: in every persisted job state the artifact of step N is present exactly
  when \<open>current_step\<close> has advanced at least to the step after N. It fails after a run
  in which the search step succeeded and the theme step raised: the record is at
  \<open>serp_analysis\<close> and holds the search data, the artifact of \<open>serp_analysis\<close> itself.
\<close>

theorem artifact_iff_next_step_counterexample:
  "reachable demo_env_theme_fails demo_failed_world
     [demo_failed_job, fst (snd (demo_created demo_env_theme_fails))]
   \<and> demo_failed_job \<in> set (persisted demo_failed_world)
   \<and> has_artifact SERP_ANALYSIS (artifacts demo_failed_job)
   \<and> \<not> step_index SERP_ANALYSIS + 1 \<le> step_index (current_step demo_failed_job)"
proof -
  have "demo_failed_job \<in> set (persisted demo_failed_world)" by code_simp
  moreover have "has_artifact SERP_ANALYSIS (artifacts demo_failed_job)" by code_simp
  moreover have "current_step demo_failed_job = SERP_ANALYSIS" by code_simp
  ultimately show ?thesis using demo_failed_reachable by simp
qed

text \<open>
  C2, amended: in every job state persisted by create, run and resume, the artifact of
  step N is present exactly when N is one of the five steps that produce an artifact and
  \<open>current_step\<close> has advanced at least to N itself: the artifact is written in the
  checkpoint that moves \<open>current_step\<close> to N.
\<close>

theorem artifact_iff_step_reached:
  assumes "reachable e w js" and "j \<in> set (persisted w)"
  shows "has_artifact N (artifacts j)
           = (N \<in> set artifact_steps \<and> step_index N \<le> step_index (current_step j))"
proof -
  from assms have "step_artifacts_agree j" by (rule reachable_persisted_agree)
  then show ?thesis
    by (cases N) (simp_all add: agree_iff artifact_steps_def)
qed

theorem artifact_iff_step_reached_witness:
  "reachable demo_env demo_done_world [demo_done_job, fst (snd (demo_created demo_env))]
   \<and> demo_done_job \<in> set (persisted demo_done_world)
   \<and> has_artifact SEO_VALIDATION (artifacts demo_done_job)
   \<and> \<not> has_artifact STEP_COMPLETED (artifacts demo_done_job)"
proof -
  have m: "demo_done_job \<in> set (persisted demo_done_world)" by code_simp
  have c: "current_step demo_done_job = STEP_COMPLETED" by code_simp
  from artifact_iff_step_reached [OF demo_done_reachable m, of SEO_VALIDATION] c
  have 1: "has_artifact SEO_VALIDATION (artifacts demo_done_job)"
    by (simp add: artifact_steps_def)
  from artifact_iff_step_reached [OF demo_done_reachable m, of STEP_COMPLETED]
  have 2: "\<not> has_artifact STEP_COMPLETED (artifacts demo_done_job)"
    by (simp add: artifact_steps_def)
  from demo_done_reachable m 1 2 show ?thesis by simp
qed

text \<open>
  C3. Take a run in which the steps up to position \<open>m\<close> of the step order succeeded and
  were checkpointed (possibly none: \<open>m\<close> is then where the job stood), and the step at
  position \<open>m + 1\<close> raises. Then \<open>run\<close> raises, and afterwards the job's \<open>current_step\<close> is
  the step at position \<open>m\<close>, the last one checkpointed, and its artifacts are exactly
  those it had after that checkpoint: nothing the earlier steps wrote is lost or changed.
  The record on disk is the job as it is afterwards, unless the save of the failure
  itself failed, in which case the files are those of the last checkpoint.
\<close>

theorem step_failure_keeps_checkpoint:
  assumes st: "run_start e cb w job = (None, job0, w0)"
    and pre: "run_loop e cb [step_index (current_step job0)..<m] w0 job0 = (None, jm, wm)"
    and le: "step_index (current_step job0) \<le> m" and m: "m < 6"
    and ex: "execute_step e wm jm (STEP_ORDER ! Suc m) = (Some x, jx, wx)"
  shows "\<exists>r j' w'. run e cb w job = (Some r, j', w')
           \<and> current_step j' = STEP_ORDER ! m \<and> current_step j' = current_step jm
           \<and> artifacts j' = artifacts jm \<and> status j' = FAILED
           \<and> (files w' = files wm \<or> get w' (job_id j') = Some j')"
proof -
  from m have m6: "m \<le> 6" by simp
  from run_loop_prefix [OF pre m6 _ refl le]
  have sp: "run_loop e cb [step_index (current_step job0)..<6] w0 job0
              = run_loop e cb [m..<6] wm jm"
    and cm: "step_index (current_step jm) = m" by simp_all
  have "run_loop e cb [m..<6] wm jm = (Some x, jx, wx)"
    by (simp add: run_loop_step [OF m] ex)
  with sp have tr: "run_try e cb w0 job0 = (Some x, jx, wx)" by (simp add: run_try_eq)
  from execute_step_raise [OF ex] have jx: "jx = jm" and fx: "files wx = files wm" by simp_all
  obtain r j' w' where rx: "run_except e cb wx jx x = (r, j', w')"
    by (cases "run_except e cb wx jx x")
  from st tr rx have rn: "run e cb w job = (r, j', w')" by (simp add: run_def)
  from run_except_eq [OF rx] obtain r' where r: "r = Some r'" by auto
  from cm have "current_step jm = STEP_ORDER ! m" using STEP_ORDER_nth [of "current_step jm"] by simp
  with run_except_eq [OF rx] jx fx rn r show ?thesis by auto
qed

theorem step_failure_keeps_checkpoint_witness:
  "fst demo_start = None \<and> fst demo_prefix = None
   \<and> fst demo_raise = Some (ProviderError ''rate limit'')
   \<and> (\<exists>r j' w'. run demo_env_theme_fails None demo_new_world demo_new_job = (Some r, j', w')
         \<and> current_step j' = SERP_ANALYSIS
         \<and> artifacts j' = artifacts (fst (snd demo_prefix)) \<and> status j' = FAILED)"
proof -
  have a: "fst demo_start = None" by code_simp
  have b: "fst demo_prefix = None" by code_simp
  have c: "fst demo_raise = Some (ProviderError ''rate limit'')" by code_simp
  have i0: "step_index (current_step (fst (snd demo_start))) = 0" by code_simp
  have h1: "run_start demo_env_theme_fails None demo_new_world demo_new_job
              = (None, fst (snd demo_start), snd (snd demo_start))"
  proof -
    have "run_start demo_env_theme_fails None demo_new_world demo_new_job = demo_start"
      by (simp only: demo_start_def)
    also have "demo_start = (None, fst (snd demo_start), snd (snd demo_start))"
      using a by (simp add: prod_eq_iff)
    finally show ?thesis .
  qed
  have h2: "run_loop demo_env_theme_fails None
              [step_index (current_step (fst (snd demo_start)))..<1]
              (snd (snd demo_start)) (fst (snd demo_start))
              = (None, fst (snd demo_prefix), snd (snd demo_prefix))"
  proof -
    have "run_loop demo_env_theme_fails None
              [step_index (current_step (fst (snd demo_start)))..<1]
              (snd (snd demo_start)) (fst (snd demo_start)) = demo_prefix"
      by (simp only: demo_prefix_def i0)
    also have "demo_prefix = (None, fst (snd demo_prefix), snd (snd demo_prefix))"
      using b by (simp add: prod_eq_iff)
    finally show ?thesis .
  qed
  have s2: "STEP_ORDER ! Suc 1 = THEME_EXTRACTION" by (simp add: STEP_ORDER_def)
  have h3: "execute_step demo_env_theme_fails (snd (snd demo_prefix)) (fst (snd demo_prefix))
              (STEP_ORDER ! Suc 1)
              = (Some (ProviderError ''rate limit''), fst (snd demo_raise), snd (snd demo_raise))"
  proof -
    have "execute_step demo_env_theme_fails (snd (snd demo_prefix)) (fst (snd demo_prefix))
              (STEP_ORDER ! Suc 1) = demo_raise"
      by (simp only: demo_raise_def s2)
    also have "demo_raise
        = (Some (ProviderError ''rate limit''), fst (snd demo_raise), snd (snd demo_raise))"
      using c by (simp add: prod_eq_iff)
    finally show ?thesis .
  qed
  have le: "step_index (current_step (fst (snd demo_start))) \<le> 1" by (simp add: i0)
  from step_failure_keeps_checkpoint [OF h1 h2 le _ h3]
  have "\<exists>r j' w'. run demo_env_theme_fails None demo_new_world demo_new_job = (Some r, j', w')
         \<and> current_step j' = STEP_ORDER ! 1
         \<and> artifacts j' = artifacts (fst (snd demo_prefix)) \<and> status j' = FAILED"
    by auto
  then show ?thesis using a b c by (simp add: STEP_ORDER_def)
qed

text \<open>
  C4. The claim: when step S raises, the JobError recorded names S. The code passes
  \<open>job.current_step\<close> to \<open>mark_failed\<close>, which is still the last checkpointed step. A new
  job whose search step raises is marked failed, persisted, and the exception reaches
  the caller, but the JobError names \<open>created\<close>, not \<open>serp_analysis\<close>, the only step that
  was invoked.
\<close>

theorem failing_step_recorded_as_previous:
  "fst (demo_ran demo_env_serp_fails) = Some (ProviderError ''timeout'')
   \<and> calls (snd (snd (demo_ran demo_env_serp_fails))) = [SERP_ANALYSIS]
   \<and> status (fst (snd (demo_ran demo_env_serp_fails))) = FAILED
   \<and> map_option step (error (fst (snd (demo_ran demo_env_serp_fails)))) = Some CREATED
   \<and> get (snd (snd (demo_ran demo_env_serp_fails))) ''0a1b2c3d''
       = Some (fst (snd (demo_ran demo_env_serp_fails)))"
  by code_simp

text \<open>
  C5. \<open>resume\<close> raises NotFound when \<open>get\<close> finds no record; returns the job as it is,
  the world untouched (so no step was invoked), when its status is completed; raises
  InvalidState when its status is pending. For a failed or running job it is \<open>run\<close>,
  without a callback, on the job with the error cleared and \<open>retry_count\<close> increased by
  one, and that run starts from the persisted \<open>current_step\<close>: the steps it invokes are,
  in order, the steps that follow \<open>current_step\<close> in the step order, beginning with the
  one right after it (the one that had failed); no step up to \<open>current_step\<close> is invoked
  again and \<open>current_step\<close> never moves back. When \<open>resume\<close> returns, all the remaining
  steps were invoked, the job is at \<open>completed\<close> and has no error. The two errors differ.
\<close>

theorem resume_cases:
  "(get w jid = None \<longrightarrow> resume e w jid = (Some (NotFound jid), None, w))
   \<and> (\<forall>job. get w jid = Some job \<and> status job = COMPLETED \<longrightarrow>
         resume e w jid = (None, Some job, w))
   \<and> (\<forall>job. get w jid = Some job \<and> status job = PENDING \<longrightarrow>
         resume e w jid = (Some (InvalidState jid PENDING), Some job, w))
   \<and> (\<forall>job. get w jid = Some job \<and> (status job = FAILED \<or> status job = RUNNING) \<longrightarrow>
         resume e w jid =
           (case run e None w (job\<lparr>error := None, retry_count := retry_count job + 1\<rparr>) of
              (r, job2, w2) \<Rightarrow> (r, Some job2, w2))
         \<and> (\<exists>r job2 w2 xs. resume e w jid = (r, Some job2, w2)
               \<and> retry_count job2 = retry_count job + 1
               \<and> calls w2 = calls w @ xs
               \<and> prefix xs (drop (step_index (current_step job)) artifact_steps)
               \<and> step_index (current_step job) \<le> step_index (current_step job2)
               \<and> (r = None \<longrightarrow> xs = drop (step_index (current_step job)) artifact_steps
                      \<and> current_step job2 = STEP_COMPLETED \<and> error job2 = None)))
   \<and> NotFound jid \<noteq> InvalidState jid PENDING"
proof -
  have d: "\<exists>r job2 w2 xs. resume e w jid = (r, Some job2, w2)
               \<and> retry_count job2 = retry_count job + 1
               \<and> calls w2 = calls w @ xs
               \<and> prefix xs (drop (step_index (current_step job)) artifact_steps)
               \<and> step_index (current_step job) \<le> step_index (current_step job2)
               \<and> (r = None \<longrightarrow> xs = drop (step_index (current_step job)) artifact_steps
                      \<and> current_step job2 = STEP_COMPLETED \<and> error job2 = None)"
    if g: "get w jid = Some job" and s: "status job = FAILED \<or> status job = RUNNING" for job
  proof -
    let ?j1 = "job\<lparr>error := None, retry_count := retry_count job + 1\<rparr>"
    obtain r j2 w2 where rn: "run e None w ?j1 = (r, j2, w2)" by (cases "run e None w ?j1")
    from g s rn have rs: "resume e w jid = (r, Some j2, w2)"
      by (auto simp: resume_def Let_def)
    from run_effect [OF rn] rs show ?thesis by auto
  qed
  have abc: "(get w jid = None \<longrightarrow> resume e w jid = (Some (NotFound jid), None, w))
   \<and> (\<forall>job. get w jid = Some job \<and> status job = COMPLETED \<longrightarrow>
         resume e w jid = (None, Some job, w))
   \<and> (\<forall>job. get w jid = Some job \<and> status job = PENDING \<longrightarrow>
         resume e w jid = (Some (InvalidState jid PENDING), Some job, w))
   \<and> (\<forall>job. get w jid = Some job \<and> (status job = FAILED \<or> status job = RUNNING) \<longrightarrow>
         resume e w jid =
           (case run e None w (job\<lparr>error := None, retry_count := retry_count job + 1\<rparr>) of
              (r, job2, w2) \<Rightarrow> (r, Some job2, w2)))
   \<and> NotFound jid \<noteq> InvalidState jid PENDING"
    by (auto simp: resume_def Let_def NotFound_def InvalidState_def)
  from abc d show ?thesis by blast
qed

theorem resume_cases_witness:
  "get demo_new_world ''zzz'' = None
   \<and> resume demo_env demo_new_world ''zzz'' = (Some (NotFound ''zzz''), None, demo_new_world)
   \<and> get demo_done_world ''0a1b2c3d'' = Some demo_done_job \<and> status demo_done_job = COMPLETED
   \<and> resume demo_env demo_done_world ''0a1b2c3d'' = (None, Some demo_done_job, demo_done_world)
   \<and> get demo_new_world ''0a1b2c3d'' = Some demo_new_job \<and> status demo_new_job = PENDING
   \<and> resume demo_env demo_new_world ''0a1b2c3d''
       = (Some (InvalidState ''0a1b2c3d'' PENDING), Some demo_new_job, demo_new_world)
   \<and> get demo_failed_world ''0a1b2c3d'' = Some demo_failed_job \<and> status demo_failed_job = FAILED
   \<and> (\<exists>r job2 w2 xs. resume demo_env demo_failed_world ''0a1b2c3d'' = (r, Some job2, w2)
         \<and> retry_count job2 = retry_count demo_failed_job + 1
         \<and> calls w2 = calls demo_failed_world @ xs
         \<and> prefix xs (drop (step_index (current_step demo_failed_job)) artifact_steps))
   \<and> current_step demo_failed_job = SERP_ANALYSIS
   \<and> calls demo_failed_world = [SERP_ANALYSIS, THEME_EXTRACTION]
   \<and> calls (snd (snd (resume demo_env demo_failed_world ''0a1b2c3d'')))
       = [SERP_ANALYSIS, THEME_EXTRACTION,
          THEME_EXTRACTION, OUTLINE_GENERATION, ARTICLE_GENERATION, SEO_VALIDATION]"
proof -
  have 1: "get demo_new_world ''zzz'' = None" by code_simp
  have 2: "get demo_done_world ''0a1b2c3d'' = Some demo_done_job \<and> status demo_done_job = COMPLETED"
    by code_simp
  have 3: "get demo_new_world ''0a1b2c3d'' = Some demo_new_job \<and> status demo_new_job = PENDING"
    by code_simp
  have 4: "get demo_failed_world ''0a1b2c3d'' = Some demo_failed_job
           \<and> status demo_failed_job = FAILED"
    by code_simp
  have 5: "current_step demo_failed_job = SERP_ANALYSIS" by code_simp
  have 6: "calls demo_failed_world = [SERP_ANALYSIS, THEME_EXTRACTION]" by code_simp
  have 7: "calls (snd (snd (resume demo_env demo_failed_world ''0a1b2c3d'')))
       = [SERP_ANALYSIS, THEME_EXTRACTION,
          THEME_EXTRACTION, OUTLINE_GENERATION, ARTICLE_GENERATION, SEO_VALIDATION]"
    by code_simp
  from 1 resume_cases [of demo_new_world "''zzz''" demo_env]
  have a: "resume demo_env demo_new_world ''zzz'' = (Some (NotFound ''zzz''), None, demo_new_world)"
    by blast
  from 2 resume_cases [of demo_done_world "''0a1b2c3d''" demo_env]
  have b: "resume demo_env demo_done_world ''0a1b2c3d'' = (None, Some demo_done_job, demo_done_world)"
    by blast
  from 3 resume_cases [of demo_new_world "''0a1b2c3d''" demo_env]
  have c: "resume demo_env demo_new_world ''0a1b2c3d''
       = (Some (InvalidState ''0a1b2c3d'' PENDING), Some demo_new_job, demo_new_world)"
    by blast
  from 4 resume_cases [of demo_failed_world "''0a1b2c3d''" demo_env]
  have d: "\<exists>r job2 w2 xs. resume demo_env demo_failed_world ''0a1b2c3d'' = (r, Some job2, w2)
         \<and> retry_count job2 = retry_count demo_failed_job + 1
         \<and> calls w2 = calls demo_failed_world @ xs
         \<and> prefix xs (drop (step_index (current_step demo_failed_job)) artifact_steps)"
    by blast
  from 1 2 3 4 5 6 7 a b c d show ?thesis by blast
qed




text \<open>
  C9. The claim: \<open>get_resumable_jobs\<close> returns all stored jobs whose status is running
  or failed, as its docstring and its test say. The code calls \<open>list_jobs\<close> once per
  status without a limit, so the default \<open>limit=100\<close> of \<open>list_jobs\<close> cuts each list: with
  101 running jobs in the store, the one created first is stored, is running, and is
  not returned.
\<close>

theorem resumable_jobs_misses_oldest:
  "crowded_job 0 \<in> set (stored_jobs crowded_world)
   \<and> status (crowded_job 0) = RUNNING
   \<and> crowded_job 0 \<notin> set (get_resumable_jobs crowded_world)"
proof -
  have "crowded_job 0 \<in> set (map crowded_job [0..<101])" by (simp del: upt_rec_numeral)
  moreover have "crowded_job 0 \<notin> set (map crowded_job (rev [1..<101]))"
  proof
    assume "crowded_job 0 \<in> set (map crowded_job (rev [1..<101]))"
    then obtain k where "1 \<le> k" "crowded_job 0 = crowded_job k" by (auto simp del: upt_rec_numeral)
    then have "created_at (crowded_job 0) = created_at (crowded_job k)" by simp
    with \<open>1 \<le> k\<close> show False by (simp add: created_at_crowded)
  qed
  ultimately show ?thesis
    by (simp only: stored_jobs_crowded resumable_crowded status_crowded) simp
qed

text \<open>
  C8. Saving a job and then loading it by its identifier gives the job that was saved:
  when \<open>save\<close> returns, \<open>get\<close> finds under the job's identifier the job object as \<open>save\<close>
  left it, which is the job passed in with \<open>updated_at\<close> stamped, every other field
  untouched. And \<open>save\<close> does return when no failure strikes and \<open>mkstemp\<close> draws a fresh
  name. This holds for every job, reachable or not.
\<close>

theorem save_get_roundtrip:
  "(save e w job = (None, j', w') \<longrightarrow>
      get w' (job_id job) = Some j' \<and> j' = job\<lparr>updated_at := clock e (tick w)\<rparr>)
   \<and> (fault e (Suc (tick w)) = NoFault
       \<and> \<not> fs_exists (files w) (temp_path_of e (Suc (tick w)) (job_id job))
       \<longrightarrow> (\<exists>j' w'. save e w job = (None, j', w')))"
proof -
  have a: "get w' (job_id job) = Some j' \<and> j' = job\<lparr>updated_at := clock e (tick w)\<rparr>"
    if "save e w job = (None, j', w')"
    using save_eq [OF that] by (auto simp: get_def map_of_fs_write)
  have b: "\<exists>j' w'. save e w job = (None, j', w')"
    if "fault e (Suc (tick w)) = NoFault
        \<and> \<not> fs_exists (files w) (temp_path_of e (Suc (tick w)) (job_id job))"
    using that by (simp add: save_def save_trace_def utcnow_def Let_def)
  from a b show ?thesis by blast
qed

theorem save_get_roundtrip_witness:
  "fst (save demo_env demo_failed_world (demo_failed_job\<lparr>retry_count := 1\<rparr>)) = None
   \<and> get (snd (snd (save demo_env demo_failed_world (demo_failed_job\<lparr>retry_count := 1\<rparr>))))
         (job_id (demo_failed_job\<lparr>retry_count := 1\<rparr>))
       = Some (fst (snd (save demo_env demo_failed_world (demo_failed_job\<lparr>retry_count := 1\<rparr>))))
   \<and> fst (snd (save demo_env demo_failed_world (demo_failed_job\<lparr>retry_count := 1\<rparr>)))
       = demo_failed_job\<lparr>retry_count := 1, updated_at := clock demo_env (tick demo_failed_world)\<rparr>"
proof -
  let ?s = "save demo_env demo_failed_world (demo_failed_job\<lparr>retry_count := 1\<rparr>)"
  have n: "fst ?s = None" by code_simp
  have "?s = (fst ?s, fst (snd ?s), snd (snd ?s))" by simp
  with n have "?s = (None, fst (snd ?s), snd (snd ?s))" by simp
  with save_get_roundtrip [of demo_env demo_failed_world "demo_failed_job\<lparr>retry_count := 1\<rparr>"
         "fst (snd ?s)" "snd (snd ?s)"]
  have "get (snd (snd ?s)) (job_id (demo_failed_job\<lparr>retry_count := 1\<rparr>)) = Some (fst (snd ?s))
        \<and> fst (snd ?s)
            = demo_failed_job\<lparr>retry_count := 1, updated_at := clock demo_env (tick demo_failed_world)\<rparr>"
    by blast
  with n show ?thesis by simp
qed

end
